theory Spec2Isabelle
  imports Complex_Main "HOL-Library.Sublist"
begin

section \<open>JavaScript strings\<close>

text \<open>
  A JavaScript string is a list of characters. The operations below are the built-ins
  the ingestion code calls (\<open>trim\<close>, \<open>toLowerCase\<close>, \<open>split\<close>, \<open>join\<close>,
  \<open>replace\<close> with a string pattern, \<open>findIndex\<close>, template-literal printing of a
  non-negative integer). Letters are ASCII: \<open>toLowerCase\<close> changes \<open>A\<close> to \<open>Z\<close> only.
  White space, which \<open>trim\<close> removes, is tab, line feed, vertical tab, form feed,
  carriage return, space and no-break space.
\<close>

definition isWhiteSpace :: "char \<Rightarrow> bool" where
  "isWhiteSpace c \<longleftrightarrow>
     c \<in> set [CHR 0x09, CHR 0x0A, CHR 0x0B, CHR 0x0C, CHR 0x0D, CHR '' '', CHR 0xA0]"

definition trim :: "string \<Rightarrow> string" where
  "trim s = rev (dropWhile isWhiteSpace (rev (dropWhile isWhiteSpace s)))"

definition toLowerCase_char :: "char \<Rightarrow> char" where
  "toLowerCase_char c =
     (case map_of (zip ''ABCDEFGHIJKLMNOPQRSTUVWXYZ'' ''abcdefghijklmnopqrstuvwxyz'') c of
        Some l \<Rightarrow> l
      | None \<Rightarrow> c)"

definition toLowerCase :: "string \<Rightarrow> string" where
  "toLowerCase s = map toLowerCase_char s"

text \<open>\<open>s.split(sep)\<close> for a one-character separator: never an empty list.\<close>

fun js_split :: "char \<Rightarrow> string \<Rightarrow> string list" where
  "js_split sep [] = [[]]"
| "js_split sep (c # cs) =
     (if c = sep then [] # js_split sep cs
      else (case js_split sep cs of
              [] \<Rightarrow> [[c]]
            | f # fs \<Rightarrow> (c # f) # fs))"

fun join :: "string \<Rightarrow> string list \<Rightarrow> string" where
  "join sep [] = []"
| "join sep [x] = x"
| "join sep (x # y # ys) = x @ sep @ join sep (y # ys)"

text \<open>
  \<open>s.replace(pat, rep)\<close> with a string pattern replaces the first occurrence of the
  pattern only, wherever it stands (\<open>rep\<close> has no \<open>$\<close> patterns in this program).
\<close>

fun js_replace :: "string \<Rightarrow> string \<Rightarrow> string \<Rightarrow> string" where
  "js_replace pat rep [] = (if pat = [] then rep else [])"
| "js_replace pat rep (c # cs) =
     (if prefix pat (c # cs) then rep @ drop (length pat) (c # cs)
      else c # js_replace pat rep cs)"

text \<open>\<open>xs.findIndex(p)\<close>; \<open>None\<close> is the result \<open>-1\<close>.\<close>

fun findIndex :: "('a \<Rightarrow> bool) \<Rightarrow> 'a list \<Rightarrow> nat option" where
  "findIndex p [] = None"
| "findIndex p (x # xs) = (if p x then Some 0 else map_option Suc (findIndex p xs))"

fun show_nat :: "nat \<Rightarrow> string" where
  "show_nat n =
     (if n < 10 then [''0123456789'' ! n]
      else show_nat (n div 10) @ [''0123456789'' ! (n mod 10)])"

declare show_nat.simps [simp del]

definition isDigit :: "char \<Rightarrow> bool" where
  "isDigit c \<longleftrightarrow> c \<in> set ''0123456789''"

definition digit_value :: "char \<Rightarrow> nat" where
  "digit_value c =
     (case map_of (zip ''0123456789'' [0, 1, 2, 3, 4, 5, 6, 7, 8, 9]) c of
        Some d \<Rightarrow> d
      | None \<Rightarrow> 0)"

definition digits_value :: "string \<Rightarrow> nat" where
  "digits_value ds = foldl (\<lambda>a c. 10 * a + digit_value c) 0 ds"

text \<open>
  \<open>gmvStr.replace(/[^0-9.-]+/g, '')\<close>: every run of characters outside the class is
  deleted, so exactly the digits, dots and minus signs remain, in order.
\<close>

definition numeric_char :: "char \<Rightarrow> bool" where
  "numeric_char c \<longleftrightarrow> isDigit c \<or> c = CHR ''.'' \<or> c = CHR ''-''"

definition strip_non_numeric :: "string \<Rightarrow> string" where
  "strip_non_numeric s = filter numeric_char s"

text \<open>
  \<open>parseFloat\<close> on what \<open>strip_non_numeric\<close> leaves. Such a string has no white space,
  no \<open>+\<close>, no exponent letter and no \<open>Infinity\<close>, so the literal that \<open>parseFloat\<close> reads
  is: an optional \<open>-\<close>, then digits with an optional fraction, or a dot followed by
  digits; reading stops at the first character that does not continue the literal. With
  no digit at all the result is \<open>NaN\<close>, here \<open>None\<close>. The number is kept as the exact
  decimal value of the literal (JavaScript rounds it to the nearest double, which has the
  same sign).
\<close>

definition parseFloat :: "string \<Rightarrow> rat option" where
  "parseFloat s =
     (let (neg, r) = (case s of
                        [] \<Rightarrow> (False, [])
                      | c # cs \<Rightarrow> if c = CHR ''-'' then (True, cs) else (False, s));
          ip = takeWhile isDigit r;
          r1 = dropWhile isDigit r;
          fp = (case r1 of
                  [] \<Rightarrow> []
                | c # cs \<Rightarrow> if c = CHR ''.'' then takeWhile isDigit cs else [])
      in if ip = [] \<and> fp = [] then None
         else Some ((if neg then - 1 else 1) *
                    (of_nat (digits_value ip) + of_nat (digits_value fp) / 10 ^ length fp)))"


section \<open>Errors\<close>

text \<open>
  Every \<open>throw\<close> of the program is a value. The first four carry what the message of the
  thrown \<open>Error\<close> is built from; \<open>InvalidDate\<close> is thrown and caught inside
  \<open>parseDate\<close>; \<open>StoreError\<close> is the error object the backend reported, with its message
  when that object is an \<open>Error\<close> instance.
\<close>

datatype field = F_name | F_post_date | F_creator_username | F_gmv

datatype required = PostDate | CreatorUsername | GMV

datatype error =
    MissingColumn field "string list"
  | NotEnoughFields nat nat
  | EmptyField nat required
  | InvalidGMV nat string
  | InvalidDate
  | StoreError "string option"

fun field_key :: "field \<Rightarrow> string" where
  "field_key F_name = ''name''"
| "field_key F_post_date = ''post_date''"
| "field_key F_creator_username = ''creator_username''"
| "field_key F_gmv = ''gmv''"

fun required_label :: "required \<Rightarrow> string" where
  "required_label PostDate = ''Post Date''"
| "required_label CreatorUsername = ''Creator Username''"
| "required_label GMV = ''GMV''"

text \<open>\<open>error.message\<close> of the errors that are \<open>Error\<close> instances.\<close>

fun error_message :: "error \<Rightarrow> string option" where
  "error_message (MissingColumn f names) =
     Some (''Required column not found: '' @ field_key f @ ''. Possible names: '' @ join '', '' names)"
| "error_message (NotEnoughFields n k) =
     Some (''Line '' @ show_nat n @ '': Not enough fields. Expected at least '' @ show_nat k @ '' fields'')"
| "error_message (EmptyField n r) =
     Some (''Line '' @ show_nat n @ '': '' @ required_label r @ '' cannot be empty'')"
| "error_message (InvalidGMV n raw) =
     Some (''Line '' @ show_nat n @ '': Invalid GMV value: '' @ raw)"
| "error_message InvalidDate = Some ''Invalid date''"
| "error_message (StoreError m) = m"


section \<open>Column resolver\<close>

record CSVColumnMap =
  col_name :: nat
  col_post_date :: nat
  col_creator_username :: nat
  col_gmv :: nat

text \<open>\<open>Object.entries(columnMappings)\<close>, in the order the object literal lists its keys.\<close>

definition columnMappings :: "(field \<times> string list) list" where
  "columnMappings =
     [(F_name, [''Video name'', ''video name'', ''name'', ''title'']),
      (F_post_date, [''Video post date'', ''video post date'', ''post date'', ''date'',
                     ''posted'', ''post_date'']),
      (F_creator_username, [''Creator username'', ''creator username'', ''creator'',
                            ''username'', ''creator_username'']),
      (F_gmv, [''GMV'', ''gmv'', ''revenue'', ''earnings''])]"

definition header_labels :: "string \<Rightarrow> string list" where
  "header_labels headerRow = map (\<lambda>h. toLowerCase (trim h)) (js_split CHR '','' headerRow)"

text \<open>
  The \<open>for\<close> loop over the entries: the partial column map grows by one field per
  iteration, and the first field without a matching label throws.
\<close>

fun resolve_entries ::
  "(field \<times> string list) list \<Rightarrow> string list \<Rightarrow> (field \<rightharpoonup> nat) \<Rightarrow> error + (field \<rightharpoonup> nat)" where
  "resolve_entries [] headers columnMap = Inr columnMap"
| "resolve_entries ((f, possibleNames) # es) headers columnMap =
     (case findIndex (\<lambda>h. h \<in> set possibleNames) headers of
        None \<Rightarrow> Inl (MissingColumn f possibleNames)
      | Some i \<Rightarrow> resolve_entries es headers (columnMap(f \<mapsto> i)))"

definition findColumnIndices :: "string \<Rightarrow> error + CSVColumnMap" where
  "findColumnIndices headerRow =
     (case resolve_entries columnMappings (header_labels headerRow) Map.empty of
        Inl e \<Rightarrow> Inl e
      | Inr m \<Rightarrow> Inr \<lparr> col_name = the (m F_name),
                      col_post_date = the (m F_post_date),
                      col_creator_username = the (m F_creator_username),
                      col_gmv = the (m F_gmv) \<rparr>)"


section \<open>The world outside the program\<close>

text \<open>
  What the program cannot compute is a parameter. \<open>date_parse s\<close> is
  \<open>new Date(s)\<close> followed by \<open>toISOString()\<close>, with \<open>None\<close> when the date is invalid
  (\<open>isNaN(date.getTime())\<close>). The wall clock, the UUID generator and the backend's error
  reports are indexed by the count of external events so far: \<open>clock k\<close> is what
  \<open>new Date().toISOString()\<close> gives at event \<open>k\<close>, \<open>uuidv4 k\<close> what \<open>uuidv4()\<close> gives, and
  \<open>backend_error k\<close> the error the backend reports for the call made at event \<open>k\<close>, if
  any.
\<close>

record env =
  date_parse :: "string \<Rightarrow> string option"
  clock :: "nat \<Rightarrow> string"
  uuidv4 :: "nat \<Rightarrow> string"
  backend_error :: "nat \<Rightarrow> string option option"

datatype status = Pending | Authorized | Unauthorized

text \<open>A row of the \<open>videos\<close> table, with the columns the program writes.\<close>

record db_row =
  r_id :: string
  r_video_id :: string
  r_name :: "string option"
  r_post_date :: string
  r_creator_username :: string
  r_gmv :: rat
  r_spark_code :: string
  r_status :: status
  r_user_id :: string
  r_created_at :: string

record world =
  videos_table :: "db_row list"
  ticks :: nat

definition tick :: "world \<Rightarrow> world" where
  "tick w = w\<lparr> ticks := Suc (ticks w) \<rparr>"

text \<open>\<open>new Date().toISOString()\<close>\<close>

definition now :: "env \<Rightarrow> world \<Rightarrow> string \<times> world" where
  "now e w = (clock e (ticks w), tick w)"


section \<open>Row parser\<close>

record CSVVideoData =
  csv_name :: "string option"
  csv_post_date :: string
  csv_creator_username :: string
  csv_gmv :: rat

text \<open>The \<open>try\<close> block of \<open>parseDate\<close>, then \<open>parseDate\<close> with its \<open>catch\<close>.\<close>

definition parseDate_try :: "env \<Rightarrow> string \<Rightarrow> error + string" where
  "parseDate_try e dateString =
     (case date_parse e dateString of
        None \<Rightarrow> Inl InvalidDate
      | Some isoString \<Rightarrow> Inr isoString)"

definition parseDate :: "env \<Rightarrow> world \<Rightarrow> string \<Rightarrow> string \<times> world" where
  "parseDate e w dateString =
     (case parseDate_try e dateString of
        Inr isoString \<Rightarrow> (isoString, w)
      | Inl err \<Rightarrow> now e w)"

definition min_fields :: "CSVColumnMap \<Rightarrow> nat" where
  "min_fields columnMap =
     max (max (max (col_name columnMap) (col_post_date columnMap))
              (col_creator_username columnMap))
         (col_gmv columnMap) + 1"

definition line_fields :: "string \<Rightarrow> string list" where
  "line_fields line = map trim (js_split CHR '','' line)"

text \<open>
  \<open>parseCSVLine\<close>. After the length check every column position is inside \<open>fields\<close>.
  The final \<open>try\<close> block calls \<open>parseDate\<close>, which returns a string on every path, and
  \<open>replace\<close>: nothing in it throws.
\<close>

definition parseCSVLine ::
  "env \<Rightarrow> world \<Rightarrow> string \<Rightarrow> nat \<Rightarrow> CSVColumnMap \<Rightarrow> (error + CSVVideoData) \<times> world" where
  "parseCSVLine e w line lineNumber columnMap =
     (let fields = line_fields line in
      if length fields < min_fields columnMap
      then (Inl (NotEnoughFields lineNumber (min_fields columnMap)), w)
      else
        let name = (if fields ! col_name columnMap = [] then None
                    else Some (fields ! col_name columnMap));
            postDate = fields ! col_post_date columnMap;
            creatorUsername = fields ! col_creator_username columnMap;
            gmvStr = fields ! col_gmv columnMap
        in if postDate = [] then (Inl (EmptyField lineNumber PostDate), w)
           else if creatorUsername = [] then (Inl (EmptyField lineNumber CreatorUsername), w)
           else if gmvStr = [] then (Inl (EmptyField lineNumber GMV), w)
           else (case parseFloat (strip_non_numeric gmvStr) of
                   None \<Rightarrow> (Inl (InvalidGMV lineNumber gmvStr), w)
                 | Some gmv \<Rightarrow>
                     (let (isoDate, w') = parseDate e w postDate
                      in (Inr \<lparr> csv_name = name,
                                csv_post_date = isoDate,
                                csv_creator_username = js_replace ''@'' '''' creatorUsername,
                                csv_gmv = gmv \<rparr>, w'))))"


section \<open>The record store\<close>

record VideoEntry =
  v_id :: string
  v_video_id :: string
  v_name :: "string option"
  v_postDate :: string
  v_creatorUsername :: string
  v_gmv :: rat
  v_hasSparkCode :: bool
  v_dateAdded :: string
  v_tags :: "string list"
  v_status :: status
  v_sparkCode :: "string option"

text \<open>
  The hosted record store is not part of the repository; the program reaches it through
  three calls, each of which is one external event and, as the spec has it, either fully
  succeeds or fully fails with a reported error.
\<close>

text \<open>
  Modelled from the spec: the store's answer to \<open>select('id')\<close> under the four \<open>eq\<close>
  filters, which the spec describes as a point query by (owner, name, date, creator)
  equality: the identifiers of the rows whose four columns equal the four values (a row
  without a name equals a query for no name).
\<close>

definition select_ids ::
  "env \<Rightarrow> world \<Rightarrow> string \<Rightarrow> string option \<Rightarrow> string \<Rightarrow> string \<Rightarrow> (error + string list) \<times> world" where
  "select_ids e w userId name postDate creatorUsername =
     (case backend_error e (ticks w) of
        Some m \<Rightarrow> (Inl (StoreError m), tick w)
      | None \<Rightarrow>
          (Inr (map r_id (filter (\<lambda>r. r_user_id r = userId \<and> r_name r = name \<and>
                                       r_post_date r = postDate \<and>
                                       r_creator_username r = creatorUsername)
                                 (videos_table w))),
           tick w))"

text \<open>
  Modelled from the spec: the store's \<open>upsert\<close> of a batch, which the spec describes as
  a bulk upsert of new records. Every row handed to it carries a freshly drawn
  identifier, so it meets no stored key and adds the rows to the table.
\<close>

definition upsert :: "env \<Rightarrow> world \<Rightarrow> db_row list \<Rightarrow> (error + unit) \<times> world" where
  "upsert e w rows =
     (case backend_error e (ticks w) of
        Some m \<Rightarrow> (Inl (StoreError m), tick w)
      | None \<Rightarrow> (Inr (), tick (w\<lparr> videos_table := videos_table w @ rows \<rparr>)))"

record update_payload =
  p_video_id :: "string option"
  p_spark_code :: "string option"
  p_status :: "status option"

text \<open>
  Modelled from the spec: the store's \<open>update\<close> under the filters \<open>eq('id', ...)\<close> and
  \<open>eq('user_id', ...)\<close>, which the spec describes as a scoped update of one record's
  status, videoId and sparkCode: the columns named in the update object are overwritten
  in the rows that pass both filters, and nothing else changes.
\<close>

definition apply_payload :: "update_payload \<Rightarrow> db_row \<Rightarrow> db_row" where
  "apply_payload p r =
     r\<lparr> r_video_id := (case p_video_id p of Some s \<Rightarrow> s | None \<Rightarrow> r_video_id r),
        r_spark_code := (case p_spark_code p of Some s \<Rightarrow> s | None \<Rightarrow> r_spark_code r),
        r_status := (case p_status p of Some s \<Rightarrow> s | None \<Rightarrow> r_status r) \<rparr>"

definition update_videos ::
  "env \<Rightarrow> world \<Rightarrow> update_payload \<Rightarrow> string \<Rightarrow> string \<Rightarrow> (error + unit) \<times> world" where
  "update_videos e w p rowId userId =
     (case backend_error e (ticks w) of
        Some m \<Rightarrow> (Inl (StoreError m), tick w)
      | None \<Rightarrow>
          (Inr (), tick (w\<lparr> videos_table :=
                               map (\<lambda>r. if r_id r = rowId \<and> r_user_id r = userId
                                        then apply_payload p r else r)
                                   (videos_table w) \<rparr>)))"


section \<open>Duplicate checker and batch writer\<close>

text \<open>
  The loop of \<open>checkForDuplicates\<close>, with its two arrays as accumulators. The argument
  of \<open>.eq('post_date', ...)\<close> is evaluated before the request is sent.
\<close>

fun checkForDuplicates ::
  "env \<Rightarrow> world \<Rightarrow> VideoEntry list \<Rightarrow> string \<Rightarrow> VideoEntry list \<Rightarrow> VideoEntry list
     \<Rightarrow> (error + VideoEntry list \<times> VideoEntry list) \<times> world" where
  "checkForDuplicates e w [] userId duplicates newVideos = (Inr (duplicates, newVideos), w)"
| "checkForDuplicates e w (video # rest) userId duplicates newVideos =
     (let (postDate, w1) = parseDate e w (v_postDate video)
      in case select_ids e w1 userId (v_name video) postDate (v_creatorUsername video) of
           (Inl err, w2) \<Rightarrow> (Inl err, w2)
         | (Inr data, w2) \<Rightarrow>
             if 0 < length data
             then checkForDuplicates e w2 rest userId (duplicates @ [video]) newVideos
             else checkForDuplicates e w2 rest userId duplicates (newVideos @ [video]))"

text \<open>
  The callback of \<open>newVideos.map\<close> in \<open>saveVideos\<close>, row after row: the properties of the
  object literal are evaluated in the order they are written.
\<close>

fun new_rows :: "env \<Rightarrow> world \<Rightarrow> VideoEntry list \<Rightarrow> string \<Rightarrow> db_row list \<times> world" where
  "new_rows e w [] userId = ([], w)"
| "new_rows e w (video # rest) userId =
     (let rowId = uuidv4 e (ticks w);
          w1 = tick w;
          (postDate, w2) = parseDate e w1 (v_postDate video);
          (createdAt, w3) = now e w2;
          row = \<lparr> r_id = rowId,
                  r_video_id = [],
                  r_name = v_name video,
                  r_post_date = postDate,
                  r_creator_username = v_creatorUsername video,
                  r_gmv = v_gmv video,
                  r_spark_code = (case v_sparkCode video of
                                    None \<Rightarrow> []
                                  | Some s \<Rightarrow> if s = [] then [] else s),
                  r_status = v_status video,
                  r_user_id = userId,
                  r_created_at = createdAt \<rparr>;
          (rows, w4) = new_rows e w3 rest userId
      in (row # rows, w4))"

record save_result =
  sv_inserted :: nat
  sv_duplicates :: nat

definition saveVideos ::
  "env \<Rightarrow> world \<Rightarrow> VideoEntry list \<Rightarrow> string \<Rightarrow> (error + save_result) \<times> world" where
  "saveVideos e w videos userId =
     (case checkForDuplicates e w videos userId [] [] of
        (Inl err, w1) \<Rightarrow> (Inl err, w1)
      | (Inr (duplicates, newVideos), w1) \<Rightarrow>
          if 0 < length newVideos
          then (let (rows, w2) = new_rows e w1 newVideos userId
                in case upsert e w2 rows of
                     (Inl err, w3) \<Rightarrow> (Inl err, w3)
                   | (Inr u, w3) \<Rightarrow>
                       (Inr \<lparr> sv_inserted = length newVideos,
                              sv_duplicates = length duplicates \<rparr>, w3))
          else (Inr \<lparr> sv_inserted = length newVideos,
                      sv_duplicates = length duplicates \<rparr>, w1))"


section \<open>The upload handler\<close>

record UploadSummaryData =
  newEntries :: nat
  duplicates :: nat
  errors :: nat
  total :: nat
  errorMessages :: "string list"

text \<open>
  The \<open>for\<close> loop of \<open>handleFileSelect\<close> over the data lines, \<open>i\<close> being the index of
  the line in \<open>lines\<close>: a line that parses is pushed to \<open>newVideos\<close>, the message of a
  line that throws is pushed to \<open>errorMessages\<close> (here \<open>messages\<close>), and the loop goes on either way.
\<close>

definition caught_text :: "error \<Rightarrow> string" where
  "caught_text err = (case error_message err of Some m \<Rightarrow> m | None \<Rightarrow> ''[object Object]'')"

fun process_rows ::
  "env \<Rightarrow> world \<Rightarrow> CSVColumnMap \<Rightarrow> string list \<Rightarrow> nat \<Rightarrow> VideoEntry list \<Rightarrow> string list
     \<Rightarrow> (VideoEntry list \<times> string list) \<times> world" where
  "process_rows e w columnMap [] i newVideos messages = ((newVideos, messages), w)"
| "process_rows e w columnMap (line # rest) i newVideos messages =
     (case parseCSVLine e w line (i + 1) columnMap of
        (Inr csvData, w1) \<Rightarrow>
          (let (dateAdded, w2) = now e w1
           in process_rows e w2 columnMap rest (i + 1)
                (newVideos @ [\<lparr> v_id = [],
                                v_video_id = [],
                                v_name = csv_name csvData,
                                v_postDate = csv_post_date csvData,
                                v_creatorUsername = csv_creator_username csvData,
                                v_gmv = csv_gmv csvData,
                                v_hasSparkCode = False,
                                v_dateAdded = dateAdded,
                                v_tags = [],
                                v_status = Pending,
                                v_sparkCode = Some [] \<rparr>])
                messages)
      | (Inl err, w1) \<Rightarrow>
          process_rows e w1 columnMap rest (i + 1) newVideos (messages @ [caught_text err]))"

text \<open>
  \<open>loadUserVideos\<close> makes one read call to the backend, catches its own failure and
  changes only the displayed list, so for the upload it is one external event.
\<close>

definition loadUserVideos :: "world \<Rightarrow> world" where
  "loadUserVideos w = tick w"

text \<open>The summary set by the outer \<open>catch\<close> of \<open>handleFileSelect\<close>.\<close>

definition failure_summary :: "error \<Rightarrow> UploadSummaryData" where
  "failure_summary err =
     \<lparr> newEntries = 0, duplicates = 0, errors = 1, total = 0,
       errorMessages = [case error_message err of
                          Some m \<Rightarrow> m
                        | None \<Rightarrow> ''Failed to process CSV file''] \<rparr>"

definition file_lines :: "string \<Rightarrow> string list" where
  "file_lines text = filter (\<lambda>line. 0 < length line) (map trim (js_split CHR 0x0A text))"

text \<open>\<open>handleFileSelect\<close>: the summary it shows, and the world it leaves.\<close>

definition handleFileSelect ::
  "env \<Rightarrow> string \<Rightarrow> world \<Rightarrow> string \<Rightarrow> UploadSummaryData \<times> world" where
  "handleFileSelect e userId w text =
     (let lines = file_lines text in
      if length lines < 2
      then (\<lparr> newEntries = 0, duplicates = 0, errors = 1, total = 0,
               errorMessages = [''CSV file must contain a header row and at least one data row''] \<rparr>,
            w)
      else
        (case findColumnIndices (lines ! 0) of
           Inl err \<Rightarrow> (failure_summary err, w)
         | Inr columnMap \<Rightarrow>
             (let duplicateCount = 0;
                  ((newVideos, messages), w1) = process_rows e w columnMap (drop 1 lines) 1 [] []
              in if 0 < length newVideos
                 then (case saveVideos e w1 newVideos userId of
                         (Inl err, w2) \<Rightarrow> (failure_summary err, w2)
                       | (Inr saved, w2) \<Rightarrow>
                           (\<lparr> newEntries = length newVideos,
                              duplicates = duplicateCount,
                              errors = length messages,
                              total = length lines - 1,
                              errorMessages = messages \<rparr>,
                            loadUserVideos w2))
                 else (\<lparr> newEntries = length newVideos,
                          duplicates = duplicateCount,
                          errors = length messages,
                          total = length lines - 1,
                          errorMessages = messages \<rparr>,
                       w1))))"


section \<open>The combined edit path\<close>

record editing =
  ed_id :: string
  ed_video_id :: string
  ed_sparkCode :: string

record updates =
  u_video_id :: "string option"
  u_sparkCode :: "string option"
  u_status :: "status option"

record app =
  videos :: "VideoEntry list"
  app_error :: "string option"

text \<open>The \<open>updates\<close> object that \<open>handleSave\<close> builds from the row being edited.\<close>

definition handleSave_updates :: "editing \<Rightarrow> updates" where
  "handleSave_updates editingVideo =
     \<lparr> u_video_id = Some (ed_video_id editingVideo),
       u_sparkCode = Some (ed_sparkCode editingVideo),
       u_status = (if trim (ed_sparkCode editingVideo) \<noteq> [] then Some Authorized else None) \<rparr>"

text \<open>
  \<open>x && {k: x}\<close> under a spread contributes the key only for a truthy \<open>x\<close>: a non-empty
  string, or any status.
\<close>

definition truthy :: "string option \<Rightarrow> string option" where
  "truthy x = (case x of None \<Rightarrow> None | Some s \<Rightarrow> if s = [] then None else Some s)"

definition payload_of :: "updates \<Rightarrow> update_payload" where
  "payload_of u =
     \<lparr> p_video_id = truthy (u_video_id u),
       p_spark_code = truthy (u_sparkCode u),
       p_status = u_status u \<rparr>"

definition merge_updates :: "updates \<Rightarrow> VideoEntry \<Rightarrow> VideoEntry" where
  "merge_updates u video =
     video\<lparr> v_video_id := (case truthy (u_video_id u) of Some s \<Rightarrow> s | None \<Rightarrow> v_video_id video),
            v_sparkCode := (case truthy (u_sparkCode u) of
                              Some s \<Rightarrow> Some s
                            | None \<Rightarrow> v_sparkCode video),
            v_status := (case u_status u of Some s \<Rightarrow> s | None \<Rightarrow> v_status video) \<rparr>"

definition handleSaveVideo ::
  "env \<Rightarrow> string \<Rightarrow> app \<times> world \<Rightarrow> string \<Rightarrow> updates \<Rightarrow> app \<times> world" where
  "handleSaveVideo e userId aw rowId u =
     (let a = (fst aw)\<lparr> app_error := None \<rparr>
      in case update_videos e (snd aw) (payload_of u) rowId userId of
           (Inl err, w1) \<Rightarrow>
             (a\<lparr> app_error := Some (case error_message err of
                                      Some m \<Rightarrow> m
                                    | None \<Rightarrow> ''Failed to save video updates'') \<rparr>, w1)
         | (Inr ok, w1) \<Rightarrow>
             (a\<lparr> videos := map (\<lambda>video. if v_id video = rowId then merge_updates u video
                                         else video)
                               (videos a) \<rparr>, w1))"

definition handleSave ::
  "env \<Rightarrow> string \<Rightarrow> app \<times> world \<Rightarrow> editing option \<Rightarrow> string \<Rightarrow> (app \<times> world) \<times> editing option" where
  "handleSave e userId aw editingVideo rowId =
     (case editingVideo of
        None \<Rightarrow> (aw, editingVideo)
      | Some ed \<Rightarrow> (handleSaveVideo e userId aw rowId (handleSave_updates ed), None))"


section \<open>Notions for the statements\<close>

text \<open>
  Following the spec's words for the username normalization: a single leading \<open>@\<close> is
  removed if present, and nothing else changes.
\<close>

definition spec_strip_leading_at :: "string \<Rightarrow> string" where
  "spec_strip_leading_at s =
     (case s of
        [] \<Rightarrow> []
      | c # cs \<Rightarrow> if c = CHR ''@'' then cs else s)"

text \<open>A required field is unresolved when no header label is one of its accepted names.\<close>

definition unresolved :: "string list \<Rightarrow> field \<times> string list \<Rightarrow> bool" where
  "unresolved headers entry \<longleftrightarrow> (\<forall>h \<in> set headers. h \<notin> set (snd entry))"

text \<open>
  The rows of a table that the duplicate query returns for a video whose post date
  parses: same owner, name, normalized post date and creator.
\<close>

definition stored_match :: "env \<Rightarrow> string \<Rightarrow> VideoEntry \<Rightarrow> db_row \<Rightarrow> bool" where
  "stored_match e userId video r \<longleftrightarrow>
     r_user_id r = userId \<and> r_name r = v_name video \<and>
     Some (r_post_date r) = date_parse e (v_postDate video) \<and>
     r_creator_username r = v_creatorUsername video"

text \<open>
  The message the upload loop collects for a numbered line of \<open>lines\<close> (index and text),
  if parsing that line throws: the line at index \<open>i\<close> is parsed as line number \<open>i + 1\<close>.
\<close>

definition line_message :: "env \<Rightarrow> world \<Rightarrow> CSVColumnMap \<Rightarrow> nat \<times> string \<Rightarrow> string option" where
  "line_message e w cm numbered =
     (case fst (parseCSVLine e w (snd numbered) (fst numbered + 1) cm) of
        Inl err \<Rightarrow> Some (caught_text err)
      | Inr row \<Rightarrow> None)"

text \<open>
  What an edit with the update \<open>u\<close> may change between a stored row \<open>r\<close> and its
  successor \<open>r'\<close>, and between a displayed entry and its successor: only the video id,
  the spark code and the status; the video id and the spark code only when the update
  carries a non-empty value for them; and neither is ever emptied.
\<close>

definition stored_frame :: "updates \<Rightarrow> db_row \<Rightarrow> db_row \<Rightarrow> bool" where
  "stored_frame u r r' \<longleftrightarrow>
     r_id r' = r_id r \<and> r_name r' = r_name r \<and> r_post_date r' = r_post_date r \<and>
     r_creator_username r' = r_creator_username r \<and> r_gmv r' = r_gmv r \<and>
     r_user_id r' = r_user_id r \<and> r_created_at r' = r_created_at r \<and>
     (u_video_id u = None \<or> u_video_id u = Some [] \<longrightarrow> r_video_id r' = r_video_id r) \<and>
     (u_sparkCode u = None \<or> u_sparkCode u = Some [] \<longrightarrow> r_spark_code r' = r_spark_code r) \<and>
     (r_video_id r \<noteq> [] \<longrightarrow> r_video_id r' \<noteq> []) \<and>
     (r_spark_code r \<noteq> [] \<longrightarrow> r_spark_code r' \<noteq> [])"

definition shown_frame :: "updates \<Rightarrow> VideoEntry \<Rightarrow> VideoEntry \<Rightarrow> bool" where
  "shown_frame u v v' \<longleftrightarrow>
     v_id v' = v_id v \<and> v_name v' = v_name v \<and> v_postDate v' = v_postDate v \<and>
     v_creatorUsername v' = v_creatorUsername v \<and> v_gmv v' = v_gmv v \<and>
     v_hasSparkCode v' = v_hasSparkCode v \<and> v_dateAdded v' = v_dateAdded v \<and>
     v_tags v' = v_tags v \<and>
     (u_video_id u = None \<or> u_video_id u = Some [] \<longrightarrow> v_video_id v' = v_video_id v) \<and>
     (u_sparkCode u = None \<or> u_sparkCode u = Some [] \<longrightarrow> v_sparkCode v' = v_sparkCode v) \<and>
     (v_video_id v \<noteq> [] \<longrightarrow> v_video_id v' \<noteq> []) \<and>
     (v_sparkCode v \<noteq> None \<and> v_sparkCode v \<noteq> Some [] \<longrightarrow>
        v_sparkCode v' \<noteq> None \<and> v_sparkCode v' \<noteq> Some [])"


section \<open>Example data\<close>

text \<open>
  A concrete environment and world on which the definitions run: one calendar date is
  known to the date parser, the clock stands still, identifiers are numbered, and the
  backend reports no error (or, in \<open>failing_env\<close>, an error on every call).
\<close>

definition example_env :: env where
  "example_env =
     \<lparr> date_parse = (\<lambda>s. if s = ''2024-01-05'' \<or> s = ''2024-01-05T00:00:00.000Z''
                          then Some ''2024-01-05T00:00:00.000Z'' else None),
       clock = (\<lambda>k. ''2025-06-01T12:00:00.000Z''),
       uuidv4 = (\<lambda>k. ''row-'' @ show_nat k),
       backend_error = (\<lambda>k. None) \<rparr>"

definition failing_env :: env where
  "failing_env = example_env\<lparr> backend_error := (\<lambda>k. Some (Some ''network down'')) \<rparr>"

text \<open>The backend reports, on every call, an error object that is not an \<open>Error\<close> instance.\<close>

definition rejecting_env :: env where
  "rejecting_env = example_env\<lparr> backend_error := (\<lambda>k. Some None) \<rparr>"

definition empty_world :: world where
  "empty_world = \<lparr> videos_table = [], ticks = 0 \<rparr>"

text \<open>The column map of the header \<open>Video name,Video post date,Creator username,GMV\<close>.\<close>

definition standard_columns :: CSVColumnMap where
  "standard_columns = \<lparr> col_name = 0, col_post_date = 1, col_creator_username = 2, col_gmv = 3 \<rparr>"

text \<open>Two uploaded files: one data line that parses; a line with an empty gmv before it.\<close>

definition example_csv :: string where
  "example_csv =
     ''Video name,Video post date,Creator username,GMV'' @ [CHR 0x0A] @
     ''Cool Clip,2024-01-05,@bob,1234.50''"

definition faulty_csv :: string where
  "faulty_csv =
     ''Video name,Video post date,Creator username,GMV'' @ [CHR 0x0A] @
     ''Broken Clip,2024-01-05,@bob,'' @ [CHR 0x0A] @
     ''Cool Clip,2024-01-05,@bob,1234.50''"

text \<open>The entry the upload handler builds from the data line of \<open>example_csv\<close>.\<close>

definition uploaded_entry :: VideoEntry where
  "uploaded_entry =
     \<lparr> v_id = [], v_video_id = [], v_name = Some ''Cool Clip'',
       v_postDate = ''2024-01-05T00:00:00.000Z'', v_creatorUsername = ''bob'',
       v_gmv = 2469 / 2, v_hasSparkCode = False,
       v_dateAdded = ''2025-06-01T12:00:00.000Z'', v_tags = [],
       v_status = Pending, v_sparkCode = Some [] \<rparr>"

text \<open>An entry as a caller other than the upload handler may pass it to \<open>saveVideos\<close>.\<close>

definition authorized_entry :: VideoEntry where
  "authorized_entry =
     \<lparr> v_id = [], v_video_id = ''7300000000000000001'', v_name = Some ''Cool Clip'',
       v_postDate = ''2024-01-05'', v_creatorUsername = ''bob'', v_gmv = 5,
       v_hasSparkCode = True, v_dateAdded = ''2025-06-01T12:00:00.000Z'', v_tags = [],
       v_status = Authorized, v_sparkCode = Some ''SPARK-1'' \<rparr>"

text \<open>A displayed entry and its stored row, as they are before an edit.\<close>

definition edited_entry :: VideoEntry where
  "edited_entry = uploaded_entry\<lparr> v_id := ''row-2'', v_status := Unauthorized \<rparr>"

definition edited_row :: db_row where
  "edited_row =
     \<lparr> r_id = ''row-2'', r_video_id = [], r_name = Some ''Cool Clip'',
       r_post_date = ''2024-01-05T00:00:00.000Z'', r_creator_username = ''bob'',
       r_gmv = 2469 / 2, r_spark_code = [], r_status = Unauthorized, r_user_id = ''user-1'',
       r_created_at = ''2025-06-01T12:00:00.000Z'' \<rparr>"


section \<open>Evaluation rules\<close>

lemmas string_defs = trim_def isWhiteSpace_def toLowerCase_def toLowerCase_char_def
  isDigit_def digit_value_def digits_value_def numeric_char_def strip_non_numeric_def

lemmas parser_defs = line_fields_def min_fields_def parseFloat_def parseCSVLine_def
  parseDate_def parseDate_try_def now_def tick_def Let_def

lemmas example_defs = example_env_def failing_env_def rejecting_env_def empty_world_def
  standard_columns_def

lemmas resolver_defs = findColumnIndices_def columnMappings_def header_labels_def

lemmas store_defs = select_ids_def upsert_def update_videos_def apply_payload_def saveVideos_def
  loadUserVideos_def caught_text_def failure_summary_def


section \<open>Username normalization\<close>

lemma js_replace_at_absent:
  "CHR ''@'' \<notin> set s \<Longrightarrow> js_replace ''@'' '''' s = s"
  by (induction s) auto

lemma js_replace_at_first:
  "CHR ''@'' \<notin> set p \<Longrightarrow> js_replace ''@'' '''' (p @ CHR ''@'' # r) = p @ r"
  by (induction p) auto

text \<open>
  Claim C2, as stated, fails: the row parser normalizes the creator username with
  \<open>replace('@', '')\<close>, which deletes the first \<open>@\<close> wherever it stands. On the data line
  below the username \<open>bob@home\<close> has no leading \<open>@\<close>, the spec's normalization leaves it
  alone, and the parser returns \<open>bobhome\<close>.
\<close>

theorem username_normalization_counterexample:
  "map_sum (\<lambda>err. ()) csv_creator_username
     (fst (parseCSVLine example_env empty_world ''Cool Clip,2024-01-05,bob@home,5'' 2
             standard_columns)) = Inr ''bobhome'' \<and>
   js_replace ''@'' '''' ''bob@home'' = ''bobhome'' \<and>
   spec_strip_leading_at ''bob@home'' = ''bob@home''"
  by (simp add: string_defs parser_defs example_defs spec_strip_leading_at_def)

lemma parseCSVLine_username:
  assumes "parseCSVLine e w line n cm = (Inr row, w')"
  shows "csv_creator_username row =
         js_replace ''@'' '''' (line_fields line ! col_creator_username cm)"
  using assms
  by (auto simp: parseCSVLine_def Let_def split: if_splits option.splits prod.splits)

text \<open>
  Claim C2, amended: the creator username of every row the parser produces is the
  creator username field of the line with its first \<open>@\<close> removed and nothing else
  changed: for every input string the normalization removes the first \<open>@\<close> of the
  string (everything before it and everything after it is kept, so a second \<open>@\<close>
  stays), and leaves a string without \<open>@\<close> unchanged. On a string that begins with
  \<open>@\<close> this is the removal of the single leading \<open>@\<close>; in particular \<open>@alice\<close> and
  \<open>alice\<close> both normalize to \<open>alice\<close>.
\<close>

theorem username_normalization:
  "(parseCSVLine e w line n cm = (Inr row, w') \<longrightarrow>
      csv_creator_username row =
        js_replace ''@'' '''' (line_fields line ! col_creator_username cm)) \<and>
   (CHR ''@'' \<notin> set p \<longrightarrow> js_replace ''@'' '''' (p @ CHR ''@'' # r) = p @ r) \<and>
   (CHR ''@'' \<notin> set s \<longrightarrow> js_replace ''@'' '''' s = s) \<and>
   js_replace ''@'' '''' (CHR ''@'' # r) = spec_strip_leading_at (CHR ''@'' # r) \<and>
   js_replace ''@'' '''' ''@alice'' = ''alice'' \<and>
   js_replace ''@'' '''' ''alice'' = ''alice''"
  using js_replace_at_first [of p r] js_replace_at_absent [of s]
        parseCSVLine_username [of e w line n cm row w']
  by (simp add: spec_strip_leading_at_def)

theorem username_normalization_witness:
  "parseCSVLine example_env empty_world ''Cool Clip,2024-01-05,@alice@home,5'' 2 standard_columns =
     (Inr \<lparr> csv_name = Some ''Cool Clip'', csv_post_date = ''2024-01-05T00:00:00.000Z'',
            csv_creator_username = ''alice@home'', csv_gmv = 5 \<rparr>, empty_world) \<and>
   line_fields ''Cool Clip,2024-01-05,@alice@home,5'' ! col_creator_username standard_columns =
     ''@alice@home'' \<and>
   js_replace ''@'' '''' ''@alice@home'' = ''alice@home'' \<and>
   CHR ''@'' \<notin> set ''bob'' \<and>
   js_replace ''@'' '''' (''bob'' @ CHR ''@'' # ''home'') = ''bob'' @ ''home'' \<and>
   CHR ''@'' \<notin> set ''carol'' \<and> js_replace ''@'' '''' ''carol'' = ''carol''"
proof -
  have run: "parseCSVLine example_env empty_world ''Cool Clip,2024-01-05,@alice@home,5'' 2
               standard_columns =
     (Inr \<lparr> csv_name = Some ''Cool Clip'', csv_post_date = ''2024-01-05T00:00:00.000Z'',
            csv_creator_username = ''alice@home'', csv_gmv = 5 \<rparr>, empty_world)"
    by (simp add: string_defs parser_defs example_defs)
  have field: "line_fields ''Cool Clip,2024-01-05,@alice@home,5'' !
                 col_creator_username standard_columns = ''@alice@home''"
    by (simp add: line_fields_def trim_def isWhiteSpace_def standard_columns_def)
  note general = username_normalization
      [of example_env empty_world "''Cool Clip,2024-01-05,@alice@home,5''" 2 standard_columns
          "\<lparr> csv_name = Some ''Cool Clip'', csv_post_date = ''2024-01-05T00:00:00.000Z'',
             csv_creator_username = ''alice@home'', csv_gmv = 5 \<rparr>" empty_world
          "''bob''" "''home''" "''carol''"]
  from general run have "''alice@home'' =
      js_replace ''@'' '''' (line_fields ''Cool Clip,2024-01-05,@alice@home,5'' !
                             col_creator_username standard_columns)"
    by simp
  then have "js_replace ''@'' '''' ''@alice@home'' = ''alice@home''"
    unfolding field by simp
  moreover from general have
    "js_replace ''@'' '''' (''bob'' @ CHR ''@'' # ''home'') = ''bob'' @ ''home''"
    "js_replace ''@'' '''' ''carol'' = ''carol''"
    by simp_all
  ultimately show ?thesis using run field by simp
qed


section \<open>Column resolution\<close>

lemma findIndex_None_iff: "findIndex p xs = None \<longleftrightarrow> (\<forall>x \<in> set xs. \<not> p x)"
  by (induction xs) auto

lemma resolve_entries_first_unresolved:
  "find (unresolved hs) es = Some (f, names) \<Longrightarrow>
   resolve_entries es hs m = Inl (MissingColumn f names)"
proof (induction es arbitrary: m)
  case Nil
  then show ?case by simp
next
  case (Cons entry es)
  obtain g ns where entry: "entry = (g, ns)" by (cases entry)
  show ?case
  proof (cases "unresolved hs entry")
    case True
    with Cons.prems entry have "g = f" "ns = names" by auto
    moreover from True entry have "findIndex (\<lambda>h. h \<in> set ns) hs = None"
      by (simp add: unresolved_def findIndex_None_iff)
    ultimately show ?thesis using entry by simp
  next
    case False
    with entry obtain i where "findIndex (\<lambda>h. h \<in> set ns) hs = Some i"
      by (cases "findIndex (\<lambda>h. h \<in> set ns) hs") (auto simp: unresolved_def findIndex_None_iff)
    moreover from False Cons.prems have "find (unresolved hs) es = Some (f, names)" by simp
    ultimately show ?thesis using entry Cons.IH by simp
  qed
qed

lemma resolve_entries_dom:
  "resolve_entries es hs m = Inr m' \<Longrightarrow> dom m' = dom m \<union> fst ` set es"
proof (induction es arbitrary: m)
  case Nil
  then show ?case by simp
next
  case (Cons entry es)
  obtain f ns where entry: "entry = (f, ns)" by (cases entry)
  from Cons.prems entry obtain i where
    "resolve_entries es hs (m(f \<mapsto> i)) = Inr m'"
    by (auto split: option.splits)
  from Cons.IH [OF this] entry show ?case by auto
qed

lemma findColumnIndices_positions:
  assumes "resolve_entries columnMappings (header_labels headerRow) Map.empty = Inr m"
  shows "findColumnIndices headerRow = Inr cm \<longleftrightarrow>
         m F_name = Some (col_name cm) \<and> m F_post_date = Some (col_post_date cm) \<and>
         m F_creator_username = Some (col_creator_username cm) \<and> m F_gmv = Some (col_gmv cm)"
proof -
  have "dom m = {F_name, F_post_date, F_creator_username, F_gmv}"
    using resolve_entries_dom [OF assms] by (auto simp: columnMappings_def)
  then obtain a b c d where
    "m F_name = Some a" "m F_post_date = Some b" "m F_creator_username = Some c" "m F_gmv = Some d"
    by (metis domD insertCI)
  then show ?thesis
    using assms by (cases cm) (auto simp: findColumnIndices_def)
qed

text \<open>
  Claim C7: for every header line in which at least one of the four required fields
  matches no header label, column resolution fails, and the error names exactly the
  first unresolved field in the order name, post_date, creator_username, gmv, together
  with the accepted names of that field; the error carries that one field only.
\<close>

theorem missing_column_is_first_unresolved:
  assumes "\<exists>entry \<in> set columnMappings. unresolved (header_labels headerRow) entry"
  shows "map fst columnMappings = [F_name, F_post_date, F_creator_username, F_gmv] \<and>
         (\<exists>f names.
            find (unresolved (header_labels headerRow)) columnMappings = Some (f, names) \<and>
            findColumnIndices headerRow = Inl (MissingColumn f names) \<and>
            error_message (MissingColumn f names) =
              Some (''Required column not found: '' @ field_key f @ ''. Possible names: '' @
                    join '', '' names))"
proof -
  from assms obtain f names where
    found: "find (unresolved (header_labels headerRow)) columnMappings = Some (f, names)"
    by (cases "find (unresolved (header_labels headerRow)) columnMappings")
       (auto simp: find_None_iff)
  then have "findColumnIndices headerRow = Inl (MissingColumn f names)"
    by (simp add: findColumnIndices_def resolve_entries_first_unresolved)
  moreover have "map fst columnMappings = [F_name, F_post_date, F_creator_username, F_gmv]"
    by (simp add: columnMappings_def)
  ultimately show ?thesis using found by simp
qed

theorem missing_column_is_first_unresolved_witness:
  "(\<exists>entry \<in> set columnMappings. unresolved (header_labels ''title, GMV'') entry) \<and>
   findColumnIndices ''title, GMV'' =
     Inl (MissingColumn F_post_date [''Video post date'', ''video post date'', ''post date'',
                                     ''date'', ''posted'', ''post_date''])"
proof -
  have labels: "header_labels ''title, GMV'' = [''title'', ''gmv'']"
    by (simp add: header_labels_def string_defs)
  have hyp: "\<exists>entry \<in> set columnMappings. unresolved (header_labels ''title, GMV'') entry"
    unfolding labels by (simp add: columnMappings_def unresolved_def)
  have first: "find (unresolved (header_labels ''title, GMV'')) columnMappings =
      Some (F_post_date, [''Video post date'', ''video post date'', ''post date'',
                          ''date'', ''posted'', ''post_date''])"
    unfolding labels by (simp add: columnMappings_def unresolved_def)
  from missing_column_is_first_unresolved [OF hyp] first hyp show ?thesis by auto
qed


section \<open>The gmv of a parsed row\<close>

lemma parseFloat_negative_has_minus:
  assumes "parseFloat s = Some v" and "v < 0"
  shows "\<exists>rest. s = CHR ''-'' # rest"
proof (rule ccontr)
  assume no_minus: "\<not> (\<exists>rest. s = CHR ''-'' # rest)"
  from assms(1) no_minus have "0 \<le> v"
    by (cases s) (auto simp: parseFloat_def Let_def split: if_splits list.splits)
  with assms(2) show False by simp
qed

lemma parseCSVLine_gmv:
  assumes "parseCSVLine e w line n cm = (Inr row, w')"
  shows "parseFloat (strip_non_numeric (line_fields line ! col_gmv cm)) = Some (csv_gmv row)"
  using assms
  by (auto simp: parseCSVLine_def Let_def split: if_splits option.splits prod.splits)

text \<open>
  Claim C9, as stated, fails: the character class of the strip keeps the minus sign and
  nothing after the parse rejects a negative number. The data line below, whose gmv
  field is \<open>-5\<close>, parses, and the gmv of the parsed row is \<open>-5\<close>.
\<close>

theorem parsed_gmv_counterexample:
  "(case fst (parseCSVLine example_env empty_world ''Cool Clip,2024-01-05,@bob,-5'' 2
                standard_columns) of
      Inl err \<Rightarrow> False
    | Inr row \<Rightarrow> csv_gmv row = - 5 \<and> csv_gmv row < 0)"
  by (simp add: string_defs parser_defs example_defs)

text \<open>
  Claim C9, amended: every row the parser produces has a gmv that is a number: the raw
  gmv string, after stripping every character that is not a digit, dot or minus sign,
  parses (the result is not \<open>NaN\<close>), and the gmv is the value parsed. That value is
  negative only when the stripped string begins with a minus sign; when it does not,
  the gmv is non-negative.
\<close>

theorem parsed_gmv_is_number_with_sign_of_literal:
  assumes "parseCSVLine e w line n cm = (Inr row, w')"
  shows "parseFloat (strip_non_numeric (line_fields line ! col_gmv cm)) = Some (csv_gmv row) \<and>
         (\<forall>c \<in> set (strip_non_numeric (line_fields line ! col_gmv cm)).
            isDigit c \<or> c = CHR ''.'' \<or> c = CHR ''-'') \<and>
         (csv_gmv row < 0 \<longrightarrow>
            (\<exists>rest. strip_non_numeric (line_fields line ! col_gmv cm) = CHR ''-'' # rest))"
proof -
  have v: "parseFloat (strip_non_numeric (line_fields line ! col_gmv cm)) = Some (csv_gmv row)"
    using assms by (rule parseCSVLine_gmv)
  moreover have "\<forall>c \<in> set (strip_non_numeric (line_fields line ! col_gmv cm)).
            isDigit c \<or> c = CHR ''.'' \<or> c = CHR ''-''"
    by (simp add: strip_non_numeric_def numeric_char_def)
  moreover have "csv_gmv row < 0 \<longrightarrow>
            (\<exists>rest. strip_non_numeric (line_fields line ! col_gmv cm) = CHR ''-'' # rest)"
    using parseFloat_negative_has_minus [OF v] by blast
  ultimately show ?thesis by blast
qed

theorem parsed_gmv_is_number_with_sign_of_literal_witness:
  "parseCSVLine example_env empty_world ''Cool Clip,2024-01-05,@bob,$1234.50'' 2 standard_columns =
     (Inr \<lparr> csv_name = Some ''Cool Clip'', csv_post_date = ''2024-01-05T00:00:00.000Z'',
            csv_creator_username = ''bob'', csv_gmv = 2469 / 2 \<rparr>, empty_world) \<and>
   parseFloat (strip_non_numeric ''$1234.50'') = Some (2469 / 2)"
proof -
  have run: "parseCSVLine example_env empty_world ''Cool Clip,2024-01-05,@bob,$1234.50'' 2
               standard_columns =
     (Inr \<lparr> csv_name = Some ''Cool Clip'', csv_post_date = ''2024-01-05T00:00:00.000Z'',
            csv_creator_username = ''bob'', csv_gmv = 2469 / 2 \<rparr>, empty_world)"
    by (simp add: string_defs parser_defs example_defs)
  have field: "line_fields ''Cool Clip,2024-01-05,@bob,$1234.50'' ! col_gmv standard_columns =
               ''$1234.50''"
    by (simp add: line_fields_def trim_def isWhiteSpace_def standard_columns_def)
  from parsed_gmv_is_number_with_sign_of_literal [OF run] run show ?thesis
    by (simp add: field)
qed


section \<open>Unparseable dates\<close>

text \<open>
  Claim C5: for every date string on which calendar parsing fails, \<open>parseDate\<close> returns
  the reading of the clock at the call instead of failing; and every data line that has
  enough fields, non-empty post date, creator username and gmv fields, and a gmv that
  parses, is parsed successfully whatever its post date is, the post date of the row
  being what \<open>parseDate\<close> returns.
\<close>

theorem unparseable_date_falls_back_to_now:
  "(date_parse e s = None \<longrightarrow> parseDate e w s = (clock e (ticks w), tick w)) \<and>
   (min_fields cm \<le> length (line_fields line) \<and>
    line_fields line ! col_post_date cm \<noteq> [] \<and>
    line_fields line ! col_creator_username cm \<noteq> [] \<and>
    line_fields line ! col_gmv cm \<noteq> [] \<and>
    parseFloat (strip_non_numeric (line_fields line ! col_gmv cm)) \<noteq> None \<longrightarrow>
    (\<exists>row. parseCSVLine e w line n cm =
             (Inr row, snd (parseDate e w (line_fields line ! col_post_date cm))) \<and>
           csv_post_date row = fst (parseDate e w (line_fields line ! col_post_date cm))))"
  by (auto simp: parseDate_def parseDate_try_def now_def parseCSVLine_def Let_def
           split: prod.splits option.splits)

theorem unparseable_date_falls_back_to_now_witness:
  "date_parse example_env ''someday'' = None \<and>
   parseDate example_env empty_world ''someday'' = (''2025-06-01T12:00:00.000Z'', tick empty_world) \<and>
   (\<exists>row. parseCSVLine example_env empty_world ''Cool Clip,someday,@bob,12'' 2 standard_columns =
            (Inr row, tick empty_world) \<and>
          csv_post_date row = ''2025-06-01T12:00:00.000Z'')"
proof -
  have fields: "line_fields ''Cool Clip,someday,@bob,12'' = [''Cool Clip'', ''someday'', ''@bob'', ''12'']"
    by (simp add: line_fields_def trim_def isWhiteSpace_def)
  have unparseable: "date_parse example_env ''someday'' = None"
    by (simp add: example_env_def)
  have reading: "clock example_env (ticks empty_world) = ''2025-06-01T12:00:00.000Z''"
    by (simp add: example_env_def)
  have gmv: "parseFloat (strip_non_numeric ''12'') \<noteq> None"
    by (simp add: parseFloat_def string_defs)
  from unparseable_date_falls_back_to_now
         [of example_env "''someday''" empty_world standard_columns "''Cool Clip,someday,@bob,12''" 2]
  show ?thesis
    using unparseable gmv by (auto simp: fields min_fields_def standard_columns_def reading)
qed


section \<open>Effects on the world\<close>

lemma tick_simps [simp]: "videos_table (tick w) = videos_table w" "ticks (tick w) = Suc (ticks w)"
  by (simp_all add: tick_def)

lemma now_effect: "now e w = (t, w') \<Longrightarrow> t = clock e (ticks w) \<and> w' = tick w"
  by (auto simp: now_def)

lemma parseDate_cases:
  "parseDate e w s = (case date_parse e s of Some d \<Rightarrow> (d, w) | None \<Rightarrow> (clock e (ticks w), tick w))"
  by (simp add: parseDate_def parseDate_try_def now_def split: option.splits)

lemma parseDate_world:
  "parseDate e w s = (d, w') \<Longrightarrow> videos_table w' = videos_table w \<and> ticks w \<le> ticks w'"
  by (auto simp: parseDate_cases split: option.splits)

lemma parseDate_valid:
  "date_parse e s = Some d \<Longrightarrow> parseDate e w s = (d, w)"
  by (simp add: parseDate_cases)

lemma select_ids_world:
  "select_ids e w u n d c = (res, w') \<Longrightarrow> w' = tick w"
  by (auto simp: select_ids_def split: option.splits)

lemma select_ids_data:
  "select_ids e w u n d c = (Inr data, w') \<Longrightarrow>
   (0 < length data) = (\<exists>r \<in> set (videos_table w). r_user_id r = u \<and> r_name r = n \<and>
                                       r_post_date r = d \<and> r_creator_username r = c)"
  by (auto simp: select_ids_def filter_empty_conv split: option.splits)

lemma new_rows_shape:
  "new_rows e w vs uid = (rows, w') \<Longrightarrow>
   length rows = length vs \<and> videos_table w' = videos_table w \<and> ticks w \<le> ticks w'"
proof (induction vs arbitrary: w rows w')
  case Nil
  then show ?case by simp
next
  case (Cons v vs)
  obtain d w2 where pd: "parseDate e (tick w) (v_postDate v) = (d, w2)" by force
  obtain rs w4 where rec: "new_rows e (tick w2) vs uid = (rs, w4)" by force
  from Cons.IH [OF rec] parseDate_world [OF pd] Cons.prems pd rec
  show ?case by (auto simp: Let_def now_def)
qed

lemma new_rows_fields:
  assumes "new_rows e w vs uid = (rows, w')" and "k < length vs"
  shows "r_video_id (rows ! k) = [] \<and>
         r_name (rows ! k) = v_name (vs ! k) \<and>
         r_creator_username (rows ! k) = v_creatorUsername (vs ! k) \<and>
         r_gmv (rows ! k) = v_gmv (vs ! k) \<and>
         r_user_id (rows ! k) = uid \<and>
         r_status (rows ! k) = v_status (vs ! k) \<and>
         r_spark_code (rows ! k) = (case v_sparkCode (vs ! k) of None \<Rightarrow> [] | Some s \<Rightarrow> s) \<and>
         (\<forall>d. date_parse e (v_postDate (vs ! k)) = Some d \<longrightarrow> r_post_date (rows ! k) = d) \<and>
         (\<exists>j. ticks w \<le> j \<and> j < ticks w' \<and> r_id (rows ! k) = uuidv4 e j) \<and>
         (\<exists>j. ticks w \<le> j \<and> j < ticks w' \<and> r_created_at (rows ! k) = clock e j)"
  using assms
proof (induction vs arbitrary: w rows w' k)
  case Nil
  then show ?case by simp
next
  case (Cons v vs)
  obtain d w2 where pd: "parseDate e (tick w) (v_postDate v) = (d, w2)" by force
  obtain rs w4 where rec: "new_rows e (tick w2) vs uid = (rs, w4)" by force
  have mono2: "Suc (ticks w) \<le> ticks w2" using parseDate_world [OF pd] by simp
  have mono4: "Suc (ticks w2) \<le> ticks w4" using new_rows_shape [OF rec] by simp
  from Cons.prems(1) pd rec have rows: "rows = \<lparr> r_id = uuidv4 e (ticks w),
                  r_video_id = [],
                  r_name = v_name v,
                  r_post_date = d,
                  r_creator_username = v_creatorUsername v,
                  r_gmv = v_gmv v,
                  r_spark_code = (case v_sparkCode v of
                                    None \<Rightarrow> []
                                  | Some s \<Rightarrow> if s = [] then [] else s),
                  r_status = v_status v,
                  r_user_id = uid,
                  r_created_at = clock e (ticks w2) \<rparr> # rs" and w': "w' = w4"
    by (auto simp: Let_def now_def)
  show ?case
  proof (cases k)
    case 0
    have "\<exists>j. ticks w \<le> j \<and> j < ticks w' \<and> uuidv4 e (ticks w) = uuidv4 e j"
      using mono2 mono4 w' by (intro exI [of _ "ticks w"]) simp
    moreover have "\<exists>j. ticks w \<le> j \<and> j < ticks w' \<and> clock e (ticks w2) = clock e j"
      using mono2 mono4 w' by (intro exI [of _ "ticks w2"]) simp
    moreover have "\<forall>d'. date_parse e (v_postDate v) = Some d' \<longrightarrow> d = d'"
      using pd by (auto simp: parseDate_cases)
    ultimately show ?thesis using 0 rows by (simp split: option.splits)
  next
    case (Suc k')
    with Cons.prems(2) have "k' < length vs" by simp
    from Cons.IH [OF rec this] mono2 show ?thesis
      unfolding rows w' Suc by (simp; metis (no_types, lifting) Suc_leD le_trans)
  qed
qed

lemma new_rows_ids:
  "new_rows e w vs uid = (rows, w') \<Longrightarrow>
   \<exists>js. map r_id rows = map (uuidv4 e) js \<and> sorted_wrt (<) js \<and>
        (\<forall>j \<in> set js. ticks w \<le> j \<and> j < ticks w')"
proof (induction vs arbitrary: w rows w')
  case Nil
  then show ?case by simp
next
  case (Cons v vs)
  obtain d w2 where pd: "parseDate e (tick w) (v_postDate v) = (d, w2)" by force
  obtain rs w4 where rec: "new_rows e (tick w2) vs uid = (rs, w4)" by force
  have mono2: "Suc (ticks w) \<le> ticks w2" using parseDate_world [OF pd] by simp
  have mono4: "Suc (ticks w2) \<le> ticks w4" using new_rows_shape [OF rec] by simp
  from Cons.IH [OF rec] obtain js where
    js: "map r_id rs = map (uuidv4 e) js" "sorted_wrt (<) js"
        "\<forall>j \<in> set js. ticks (tick w2) \<le> j \<and> j < ticks w4"
    by blast
  from Cons.prems pd rec have ids: "map r_id rows = uuidv4 e (ticks w) # map r_id rs" and w': "w' = w4"
    by (auto simp: Let_def now_def)
  have "map r_id rows = map (uuidv4 e) (ticks w # js)"
    using ids js(1) by simp
  moreover have "sorted_wrt (<) (ticks w # js)"
    using js(2,3) mono2 by auto
  moreover have "\<forall>j \<in> set (ticks w # js). ticks w \<le> j \<and> j < ticks w'"
    using js(3) mono2 mono4 w' by auto
  ultimately show ?case by blast
qed

lemma new_rows_distinct_ids:
  assumes "new_rows e w vs uid = (rows, w')" and "inj (uuidv4 e)"
  shows "distinct (map r_id rows)"
proof -
  from new_rows_ids [OF assms(1)] obtain js where
    js: "map r_id rows = map (uuidv4 e) js" "sorted_wrt (<) js" by blast
  from js(2) have "distinct js" by (simp add: strict_sorted_iff)
  with assms(2) js(1) show ?thesis
    by (simp add: distinct_map inj_on_def inj_def)
qed

lemma checkForDuplicates_world:
  "checkForDuplicates e w vs uid dups news = (res, w') \<Longrightarrow>
   videos_table w' = videos_table w \<and> ticks w \<le> ticks w'"
proof (induction vs arbitrary: w dups news)
  case Nil
  then show ?case by simp
next
  case (Cons v vs)
  obtain d w1 where pd: "parseDate e w (v_postDate v) = (d, w1)" by force
  obtain r w2 where sel: "select_ids e w1 uid (v_name v) d (v_creatorUsername v) = (r, w2)" by force
  have w2: "w2 = tick w1" using select_ids_world [OF sel] .
  have base: "videos_table w2 = videos_table w \<and> ticks w \<le> ticks w2"
    using parseDate_world [OF pd] w2 by simp
  show ?case
  proof (cases r)
    case (Inl err)
    with Cons.prems pd sel base show ?thesis by auto
  next
    case (Inr data)
    show ?thesis
    proof (cases "0 < length data")
      case True
      with Cons.prems pd sel Inr
      have "checkForDuplicates e w2 vs uid (dups @ [v]) news = (res, w')" by simp
      from Cons.IH [OF this] base show ?thesis by simp
    next
      case False
      with Cons.prems pd sel Inr
      have "checkForDuplicates e w2 vs uid dups (news @ [v]) = (res, w')" by simp
      from Cons.IH [OF this] base show ?thesis by simp
    qed
  qed
qed

lemma checkForDuplicates_partition:
  assumes "\<forall>v \<in> set vs. date_parse e (v_postDate v) \<noteq> None"
    and "checkForDuplicates e w vs uid dups news = (Inr (D, N), w')"
  shows "D = dups @ filter (\<lambda>v. \<exists>r \<in> set (videos_table w). stored_match e uid v r) vs \<and>
         N = news @ filter (\<lambda>v. \<not> (\<exists>r \<in> set (videos_table w). stored_match e uid v r)) vs"
  using assms
proof (induction vs arbitrary: w dups news)
  case Nil
  then show ?case by simp
next
  case (Cons v vs)
  from Cons.prems(1) obtain d where d: "date_parse e (v_postDate v) = Some d" by auto
  have pd: "parseDate e w (v_postDate v) = (d, w)" using d by (rule parseDate_valid)
  obtain r w2 where sel: "select_ids e w uid (v_name v) d (v_creatorUsername v) = (r, w2)" by force
  have w2: "w2 = tick w" using select_ids_world [OF sel] .
  have valid: "\<forall>v \<in> set vs. date_parse e (v_postDate v) \<noteq> None" using Cons.prems(1) by simp
  show ?case
  proof (cases r)
    case (Inl err)
    with Cons.prems(2) pd sel show ?thesis by simp
  next
    case (Inr data)
    have match: "(0 < length data) = (\<exists>r \<in> set (videos_table w). stored_match e uid v r)"
      using select_ids_data [OF sel [unfolded Inr]] d by (auto simp: stored_match_def)
    show ?thesis
    proof (cases "0 < length data")
      case True
      with Cons.prems(2) pd sel Inr
      have "checkForDuplicates e w2 vs uid (dups @ [v]) news = (Inr (D, N), w')" by simp
      from Cons.IH [OF valid this] True match w2 show ?thesis by simp
    next
      case False
      with Cons.prems(2) pd sel Inr
      have "checkForDuplicates e w2 vs uid dups (news @ [v]) = (Inr (D, N), w')" by simp
      from Cons.IH [OF valid this] False match w2 show ?thesis by simp
    qed
  qed
qed

lemma checkForDuplicates_subset:
  "checkForDuplicates e w vs uid dups news = (Inr (D, N), w') \<Longrightarrow>
   set N \<subseteq> set news \<union> set vs \<and> length D + length N = length dups + length news + length vs"
proof (induction vs arbitrary: w dups news)
  case Nil
  then show ?case by auto
next
  case (Cons v vs)
  obtain d w1 where pd: "parseDate e w (v_postDate v) = (d, w1)" by force
  obtain r w2 where sel: "select_ids e w1 uid (v_name v) d (v_creatorUsername v) = (r, w2)" by force
  show ?case
  proof (cases r)
    case (Inl err)
    with Cons.prems pd sel show ?thesis by simp
  next
    case (Inr data)
    show ?thesis
    proof (cases "0 < length data")
      case True
      with Cons.prems pd sel Inr
      have "checkForDuplicates e w2 vs uid (dups @ [v]) news = (Inr (D, N), w')" by simp
      from Cons.IH [OF this] show ?thesis by auto
    next
      case False
      with Cons.prems pd sel Inr
      have "checkForDuplicates e w2 vs uid dups (news @ [v]) = (Inr (D, N), w')" by simp
      from Cons.IH [OF this] show ?thesis by auto
    qed
  qed
qed

lemma saveVideos_success:
  assumes "saveVideos e w vs uid = (Inr res, w')"
  obtains D N w1 rows w2 where
    "checkForDuplicates e w vs uid [] [] = (Inr (D, N), w1)"
    "new_rows e w1 N uid = (rows, w2)"
    "videos_table w' = videos_table w @ rows"
    "sv_inserted res = length N" "sv_duplicates res = length D"
    "ticks w \<le> ticks w1" "ticks w2 < ticks w' \<or> (N = [] \<and> w' = w1)" "length rows = length N"
proof -
  obtain r w1 where chk: "checkForDuplicates e w vs uid [] [] = (r, w1)" by force
  with assms obtain D N where r: "r = Inr (D, N)"
    by (cases r) (auto simp: saveVideos_def)
  obtain rows w2 where nr: "new_rows e w1 N uid = (rows, w2)" by force
  have t1: "videos_table w1 = videos_table w" "ticks w \<le> ticks w1"
    using checkForDuplicates_world [OF chk] by simp_all
  have t2: "videos_table w2 = videos_table w1" "length rows = length N"
    using new_rows_shape [OF nr] by simp_all
  show thesis
  proof (cases "N = []")
    case True
    with assms chk r nr t1 have "w' = w1" "res = \<lparr> sv_inserted = length N, sv_duplicates = length D \<rparr>"
      by (auto simp: saveVideos_def)
    moreover from True nr have "rows = []" by simp
    ultimately show ?thesis using that [OF chk [unfolded r] nr] t1 True by simp
  next
    case False
    with assms chk r nr have up: "upsert e w2 rows = (Inr (), w')"
      and res: "res = \<lparr> sv_inserted = length N, sv_duplicates = length D \<rparr>"
      by (auto simp: saveVideos_def split: prod.splits sum.splits)
    from up have "videos_table w' = videos_table w2 @ rows" "ticks w' = Suc (ticks w2)"
      by (auto simp: upsert_def split: option.splits)
    with that [OF chk [unfolded r] nr] t1 t2 res show ?thesis by simp
  qed
qed


section \<open>The batch writer\<close>

lemma ball_set_nth: "(\<forall>r \<in> set xs. P r) = (\<forall>k < length xs. P (xs ! k))"
  by (metis in_set_conv_nth)

text \<open>
  Claim C4, as stated, fails: \<open>saveVideos\<close> writes \<open>video.sparkCode || ''\<close> and
  \<open>video.status\<close>, so the spark code and the status of the written record are those the
  input row carried. The entry below carries the spark code \<open>SPARK-1\<close> and the status
  \<open>authorized\<close>, and so does the record written for it.
\<close>

theorem written_record_counterexample:
  "map (\<lambda>r. (r_spark_code r, r_status r))
     (videos_table (snd (saveVideos example_env empty_world [authorized_entry] ''user-1''))) =
   [(''SPARK-1'', Authorized)]"
  by (simp add: store_defs parser_defs example_defs authorized_entry_def)

lemma digit_value_nth: "n < 10 \<Longrightarrow> digit_value (''0123456789'' ! n) = n"
proof -
  assume "n < 10"
  then have "n \<in> {0, 1, 2, 3, 4, 5, 6, 7, 8, 9}" by auto
  then show ?thesis by (auto simp: digit_value_def)
qed

lemma digits_value_snoc: "digits_value (ds @ [c]) = 10 * digits_value ds + digit_value c"
  by (simp add: digits_value_def)

lemma digits_value_show_nat: "digits_value (show_nat n) = n"
proof (induction n rule: show_nat.induct)
  case (1 n)
  show ?case
  proof (cases "n < 10")
    case True
    then show ?thesis
      by (subst show_nat.simps) (simp add: digits_value_def digit_value_nth)
  next
    case False
    with "1.IH" have "digits_value (show_nat (n div 10)) = n div 10" by simp
    with False show ?thesis
      by (subst show_nat.simps) (simp add: digits_value_snoc digit_value_nth)
  qed
qed

lemma show_nat_inj: "show_nat a = show_nat b \<Longrightarrow> a = b"
  by (metis digits_value_show_nat)

lemma example_uuidv4_inj: "inj (uuidv4 example_env)"
  by (auto simp: inj_def example_env_def dest: show_nat_inj)

lemma checkForDuplicates_subseq:
  "checkForDuplicates e w vs uid dups news = (Inr (D, N), w') \<Longrightarrow>
   \<exists>ds ns. D = dups @ ds \<and> N = news @ ns \<and> subseq ds vs \<and> subseq ns vs"
proof (induction vs arbitrary: w dups news)
  case Nil
  then show ?case by simp
next
  case (Cons v vs)
  obtain d w1 where pd: "parseDate e w (v_postDate v) = (d, w1)" by force
  obtain r w2 where sel: "select_ids e w1 uid (v_name v) d (v_creatorUsername v) = (r, w2)" by force
  show ?case
  proof (cases r)
    case (Inl err)
    with Cons.prems pd sel show ?thesis by simp
  next
    case (Inr data)
    show ?thesis
    proof (cases "0 < length data")
      case True
      with Cons.prems pd sel Inr
      have "checkForDuplicates e w2 vs uid (dups @ [v]) news = (Inr (D, N), w')" by simp
      from Cons.IH [OF this] obtain ds ns where
        "D = (dups @ [v]) @ ds" "N = news @ ns" "subseq ds vs" "subseq ns vs" by blast
      then have "D = dups @ (v # ds) \<and> N = news @ ns \<and> subseq (v # ds) (v # vs) \<and>
                 subseq ns (v # vs)"
        by auto
      then show ?thesis by blast
    next
      case False
      with Cons.prems pd sel Inr
      have "checkForDuplicates e w2 vs uid dups (news @ [v]) = (Inr (D, N), w')" by simp
      from Cons.IH [OF this] obtain ds ns where
        "D = dups @ ds" "N = (news @ [v]) @ ns" "subseq ds vs" "subseq ns vs" by blast
      then have "D = dups @ ds \<and> N = news @ (v # ns) \<and> subseq ds (v # vs) \<and>
                 subseq (v # ns) (v # vs)"
        by auto
      then show ?thesis by blast
    qed
  qed
qed

text \<open>
  Claim C4, amended: for every row the batch writer persists, whatever the input row
  carried in those fields, the written record has a freshly generated globally-unique
  identifier (one draw of the generator per row, made during the call, so that with a
  generator that never repeats a value the identifiers of the batch are pairwise
  distinct and differ from every identifier drawn before or after the call), an empty
  videoId, the owner passed to the call, and a creation timestamp read from the clock
  during the call. The records are written in the order of the rows classified as new,
  and the spark code and status of each record are those its own input row carried (the
  spark code empty when the row has none): empty and \<open>pending\<close> for the entries the
  upload handler builds.
\<close>

theorem written_records:
  assumes "saveVideos e w vs uid = (Inr res, w')"
  shows "\<exists>dups news w1 written.
           checkForDuplicates e w vs uid [] [] = (Inr (dups, news), w1) \<and>
           subseq news vs \<and>
           videos_table w' = videos_table w @ written \<and>
           length written = length news \<and>
           sv_inserted res = length news \<and>
           (\<forall>k < length written.
              r_video_id (written ! k) = [] \<and>
              r_user_id (written ! k) = uid \<and>
              r_name (written ! k) = v_name (news ! k) \<and>
              r_creator_username (written ! k) = v_creatorUsername (news ! k) \<and>
              r_gmv (written ! k) = v_gmv (news ! k) \<and>
              r_spark_code (written ! k) =
                (case v_sparkCode (news ! k) of None \<Rightarrow> [] | Some s \<Rightarrow> s) \<and>
              r_status (written ! k) = v_status (news ! k) \<and>
              (\<forall>d. date_parse e (v_postDate (news ! k)) = Some d \<longrightarrow>
                   r_post_date (written ! k) = d) \<and>
              (\<exists>j. ticks w \<le> j \<and> j < ticks w' \<and> r_created_at (written ! k) = clock e j)) \<and>
           (\<exists>js. map r_id written = map (uuidv4 e) js \<and> sorted_wrt (<) js \<and>
                 (\<forall>j \<in> set js. ticks w \<le> j \<and> j < ticks w')) \<and>
           (inj (uuidv4 e) \<longrightarrow>
              distinct (map r_id written) \<and>
              (\<forall>r \<in> set written. \<forall>i. i < ticks w \<or> ticks w' \<le> i \<longrightarrow> r_id r \<noteq> uuidv4 e i)) \<and>
           ((\<forall>v \<in> set vs. (v_sparkCode v = None \<or> v_sparkCode v = Some []) \<and>
                          v_status v = Pending) \<longrightarrow>
            (\<forall>r \<in> set written. r_spark_code r = [] \<and> r_status r = Pending))"
proof -
  from assms obtain D N w1 rows w2 where
    chk: "checkForDuplicates e w vs uid [] [] = (Inr (D, N), w1)" and
    nr: "new_rows e w1 N uid = (rows, w2)" and
    table: "videos_table w' = videos_table w @ rows" and
    count: "sv_inserted res = length N" and
    t1: "ticks w \<le> ticks w1" and
    t2: "ticks w2 < ticks w' \<or> (N = [] \<and> w' = w1)" and
    len: "length rows = length N"
    by (rule saveVideos_success)
  have sub: "subseq N vs" using checkForDuplicates_subseq [OF chk] by auto
  have subset: "set N \<subseteq> set vs" using checkForDuplicates_subset [OF chk] by simp
  have each: "r_video_id (rows ! k) = [] \<and>
              r_user_id (rows ! k) = uid \<and>
              r_name (rows ! k) = v_name (N ! k) \<and>
              r_creator_username (rows ! k) = v_creatorUsername (N ! k) \<and>
              r_gmv (rows ! k) = v_gmv (N ! k) \<and>
              r_spark_code (rows ! k) =
                (case v_sparkCode (N ! k) of None \<Rightarrow> [] | Some s \<Rightarrow> s) \<and>
              r_status (rows ! k) = v_status (N ! k) \<and>
              (\<forall>d. date_parse e (v_postDate (N ! k)) = Some d \<longrightarrow>
                   r_post_date (rows ! k) = d) \<and>
              (\<exists>j. ticks w \<le> j \<and> j < ticks w' \<and> r_created_at (rows ! k) = clock e j)"
    if k: "k < length rows" for k
  proof -
    from k len have kN: "k < length N" by simp
    then have "N \<noteq> []" by auto
    with t2 have t2': "ticks w2 < ticks w'" by simp
    note f = new_rows_fields [OF nr kN]
    from f obtain j where j: "ticks w1 \<le> j" "j < ticks w2" "r_created_at (rows ! k) = clock e j"
      by blast
    have "\<exists>j. ticks w \<le> j \<and> j < ticks w' \<and> r_created_at (rows ! k) = clock e j"
      using j t1 t2' by (intro exI [of _ j]) simp
    with f show ?thesis by simp
  qed
  from new_rows_ids [OF nr] obtain js where
    js: "map r_id rows = map (uuidv4 e) js" "sorted_wrt (<) js"
        "\<forall>j \<in> set js. ticks w1 \<le> j \<and> j < ticks w2"
    by blast
  have range: "\<forall>j \<in> set js. ticks w \<le> j \<and> j < ticks w'"
  proof (cases "N = []")
    case True
    with len js(1) have "js = []" by simp
    then show ?thesis by simp
  next
    case False
    with t2 have "ticks w2 < ticks w'" by simp
    with js(3) t1 show ?thesis by auto
  qed
  have drawn: "\<exists>js. map r_id rows = map (uuidv4 e) js \<and> sorted_wrt (<) js \<and>
                 (\<forall>j \<in> set js. ticks w \<le> j \<and> j < ticks w')"
    using js(1,2) range by blast
  have fresh: "inj (uuidv4 e) \<longrightarrow>
              distinct (map r_id rows) \<and>
              (\<forall>r \<in> set rows. \<forall>i. i < ticks w \<or> ticks w' \<le> i \<longrightarrow> r_id r \<noteq> uuidv4 e i)"
  proof (intro impI conjI ballI allI)
    assume "inj (uuidv4 e)"
    then show "distinct (map r_id rows)" using new_rows_distinct_ids [OF nr] by blast
  next
    fix r i
    assume inj: "inj (uuidv4 e)" and r: "r \<in> set rows" and i: "i < ticks w \<or> ticks w' \<le> i"
    from r have "r_id r \<in> set (map r_id rows)" by simp
    with js(1) obtain j where j: "j \<in> set js" "r_id r = uuidv4 e j" by auto
    with range have "ticks w \<le> j \<and> j < ticks w'" by blast
    with i have "j \<noteq> i" by auto
    with inj j(2) show "r_id r \<noteq> uuidv4 e i" by (auto simp: inj_def)
  qed
  have handler: "(\<forall>v \<in> set vs. (v_sparkCode v = None \<or> v_sparkCode v = Some []) \<and>
                          v_status v = Pending) \<longrightarrow>
            (\<forall>r \<in> set rows. r_spark_code r = [] \<and> r_status r = Pending)"
  proof (intro impI ballI)
    fix r
    assume built: "\<forall>v \<in> set vs. (v_sparkCode v = None \<or> v_sparkCode v = Some []) \<and>
                          v_status v = Pending"
      and r: "r \<in> set rows"
    from r obtain k where k: "k < length rows" "rows ! k = r" by (auto simp: in_set_conv_nth)
    with len subset have "N ! k \<in> set vs" by auto
    with built have "(v_sparkCode (N ! k) = None \<or> v_sparkCode (N ! k) = Some []) \<and>
                     v_status (N ! k) = Pending" by blast
    with each [OF k(1)] k(2) show "r_spark_code r = [] \<and> r_status r = Pending" by auto
  qed
  from chk sub table len count each drawn fresh handler show ?thesis
    by (intro exI [of _ D] exI [of _ N] exI [of _ w1] exI [of _ rows]) simp
qed

lemma process_rows_entries:
  "process_rows e w cm ls i vs ms = ((vs', ms'), w') \<Longrightarrow>
   \<forall>v \<in> set vs. v_sparkCode v = Some [] \<and> v_status v = Pending \<Longrightarrow>
   \<forall>v \<in> set vs'. v_sparkCode v = Some [] \<and> v_status v = Pending"
proof (induction ls arbitrary: w i vs ms)
  case Nil
  then show ?case by simp
next
  case (Cons line ls)
  obtain r w1 where p: "parseCSVLine e w line (i + 1) cm = (r, w1)" by force
  show ?case
  proof (cases r)
    case (Inl err)
    with Cons.prems(1) p
    have "process_rows e w1 cm ls (i + 1) vs (ms @ [caught_text err]) = ((vs', ms'), w')" by simp
    from Cons.IH [OF this Cons.prems(2)] show ?thesis .
  next
    case (Inr row)
    with Cons.prems(1) p obtain entry where
      run: "process_rows e (tick w1) cm ls (i + 1) (vs @ [entry]) ms = ((vs', ms'), w')" and
      entry: "v_sparkCode entry = Some [] \<and> v_status entry = Pending"
      by (auto simp: now_def)
    from entry Cons.prems(2)
    have "\<forall>v \<in> set (vs @ [entry]). v_sparkCode v = Some [] \<and> v_status v = Pending" by simp
    from Cons.IH [OF run this] show ?thesis .
  qed
qed

theorem written_records_witness:
  "saveVideos example_env empty_world [authorized_entry, uploaded_entry] ''user-1'' =
     (Inr \<lparr> sv_inserted = 2, sv_duplicates = 0 \<rparr>,
      \<lparr> videos_table =
          [\<lparr> r_id = ''row-2'', r_video_id = [], r_name = Some ''Cool Clip'',
             r_post_date = ''2024-01-05T00:00:00.000Z'', r_creator_username = ''bob'',
             r_gmv = 5, r_spark_code = ''SPARK-1'', r_status = Authorized,
             r_user_id = ''user-1'', r_created_at = ''2025-06-01T12:00:00.000Z'' \<rparr>,
           \<lparr> r_id = ''row-4'', r_video_id = [], r_name = Some ''Cool Clip'',
             r_post_date = ''2024-01-05T00:00:00.000Z'', r_creator_username = ''bob'',
             r_gmv = 2469 / 2, r_spark_code = [], r_status = Pending,
             r_user_id = ''user-1'', r_created_at = ''2025-06-01T12:00:00.000Z'' \<rparr>],
        ticks = 7 \<rparr>) \<and>
   inj (uuidv4 example_env) \<and>
   (\<exists>written.
      videos_table (snd (saveVideos example_env empty_world [authorized_entry, uploaded_entry]
                           ''user-1'')) = videos_table empty_world @ written \<and>
      length written = 2 \<and>
      distinct (map r_id written) \<and>
      r_spark_code (written ! 0) = ''SPARK-1'' \<and> r_status (written ! 0) = Authorized \<and>
      r_spark_code (written ! 1) = [] \<and> r_status (written ! 1) = Pending \<and>
      r_video_id (written ! 0) = [] \<and> r_video_id (written ! 1) = [])"
proof -
  have check: "checkForDuplicates example_env empty_world [authorized_entry, uploaded_entry]
                 ''user-1'' [] [] =
               (Inr ([], [authorized_entry, uploaded_entry]), \<lparr> videos_table = [], ticks = 2 \<rparr>)"
    by (simp add: store_defs parser_defs example_defs authorized_entry_def uploaded_entry_def)
  have run: "saveVideos example_env empty_world [authorized_entry, uploaded_entry] ''user-1'' =
     (Inr \<lparr> sv_inserted = 2, sv_duplicates = 0 \<rparr>,
      \<lparr> videos_table =
          [\<lparr> r_id = ''row-2'', r_video_id = [], r_name = Some ''Cool Clip'',
             r_post_date = ''2024-01-05T00:00:00.000Z'', r_creator_username = ''bob'',
             r_gmv = 5, r_spark_code = ''SPARK-1'', r_status = Authorized,
             r_user_id = ''user-1'', r_created_at = ''2025-06-01T12:00:00.000Z'' \<rparr>,
           \<lparr> r_id = ''row-4'', r_video_id = [], r_name = Some ''Cool Clip'',
             r_post_date = ''2024-01-05T00:00:00.000Z'', r_creator_username = ''bob'',
             r_gmv = 2469 / 2, r_spark_code = [], r_status = Pending,
             r_user_id = ''user-1'', r_created_at = ''2025-06-01T12:00:00.000Z'' \<rparr>],
        ticks = 7 \<rparr>)"
    by (simp add: store_defs parser_defs example_defs authorized_entry_def uploaded_entry_def
                  show_nat.simps)
  have unique: "inj (uuidv4 example_env)" by (rule example_uuidv4_inj)
  from written_records [OF run] obtain dups news w1 written where
    c: "checkForDuplicates example_env empty_world [authorized_entry, uploaded_entry]
          ''user-1'' [] [] = (Inr (dups, news), w1)" and
    t: "videos_table (snd (saveVideos example_env empty_world
                             [authorized_entry, uploaded_entry] ''user-1'')) =
          videos_table empty_world @ written" and
    l: "length written = length news" and
    f: "\<forall>k < length written.
          r_video_id (written ! k) = [] \<and>
          r_spark_code (written ! k) =
            (case v_sparkCode (news ! k) of None \<Rightarrow> [] | Some s \<Rightarrow> s) \<and>
          r_status (written ! k) = v_status (news ! k)" and
    d: "inj (uuidv4 example_env) \<longrightarrow> distinct (map r_id written)"
    unfolding run snd_conv by blast
  from c check have news: "news = [authorized_entry, uploaded_entry]" by simp
  with l have len: "length written = 2" by simp
  from f len news have
    "r_spark_code (written ! 0) = ''SPARK-1'' \<and> r_status (written ! 0) = Authorized \<and>
     r_video_id (written ! 0) = []"
    "r_spark_code (written ! 1) = [] \<and> r_status (written ! 1) = Pending \<and>
     r_video_id (written ! 1) = []"
    by (auto simp: authorized_entry_def uploaded_entry_def)
  with t len d unique run show ?thesis by auto
qed

lemma saveVideos_failure:
  assumes "saveVideos e w vs uid = (Inl err, w')"
  shows "videos_table w' = videos_table w"
proof -
  obtain r w1 where chk: "checkForDuplicates e w vs uid [] [] = (r, w1)" by force
  have t1: "videos_table w1 = videos_table w"
    using checkForDuplicates_world [OF chk] by simp
  show ?thesis
  proof (cases r)
    case (Inl err')
    with assms chk t1 show ?thesis by (simp add: saveVideos_def)
  next
    case (Inr DN)
    obtain D N where DN: "DN = (D, N)" by (cases DN)
    obtain rows w2 where nr: "new_rows e w1 N uid = (rows, w2)" by force
    have t2: "videos_table w2 = videos_table w1"
      using new_rows_shape [OF nr] by simp
    from assms chk Inr DN nr have "upsert e w2 rows = (Inl err, w')"
      by (auto simp: saveVideos_def split: if_splits prod.splits sum.splits)
    then have "videos_table w' = videos_table w2"
      by (auto simp: upsert_def split: option.splits)
    with t1 t2 show ?thesis by simp
  qed
qed

lemma checkForDuplicates_succeeds:
  "\<forall>k \<ge> ticks w. backend_error e k = None \<Longrightarrow>
   \<exists>D N w'. checkForDuplicates e w vs uid dups news = (Inr (D, N), w')"
proof (induction vs arbitrary: w dups news)
  case Nil
  then show ?case by simp
next
  case (Cons v vs)
  obtain d w1 where pd: "parseDate e w (v_postDate v) = (d, w1)" by force
  have mono: "ticks w \<le> ticks w1" using parseDate_world [OF pd] by simp
  with Cons.prems have ok: "backend_error e (ticks w1) = None" by simp
  then obtain data where sel: "select_ids e w1 uid (v_name v) d (v_creatorUsername v) = (Inr data, tick w1)"
    by (simp add: select_ids_def)
  have later: "\<forall>k \<ge> ticks (tick w1). backend_error e k = None"
    using Cons.prems mono by simp
  from Cons.IH [OF later, of "dups @ [v]" news] Cons.IH [OF later, of dups "news @ [v]"] pd sel
  show ?case by simp
qed

lemma saveVideos_succeeds:
  assumes "\<forall>k \<ge> ticks w. backend_error e k = None"
  shows "\<exists>res w'. saveVideos e w vs uid = (Inr res, w')"
proof -
  from checkForDuplicates_succeeds [OF assms] obtain D N w1 where
    chk: "checkForDuplicates e w vs uid [] [] = (Inr (D, N), w1)" by blast
  obtain rows w2 where nr: "new_rows e w1 N uid = (rows, w2)" by force
  have "ticks w \<le> ticks w2"
    using checkForDuplicates_world [OF chk] new_rows_shape [OF nr] by simp
  with assms have "backend_error e (ticks w2) = None" by simp
  then have "upsert e w2 rows = (Inr (), tick (w2\<lparr> videos_table := videos_table w2 @ rows \<rparr>))"
    by (simp add: upsert_def)
  with chk nr show ?thesis by (simp add: saveVideos_def)
qed

text \<open>
  Claim C3: if a batch of rows with valid post dates has been saved for a user by
  \<open>saveVideos\<close>, and the same batch is saved again for the same user on a table that
  has not changed since, then the second call inserts no record (the table stays as it
  was), and the result it returns classifies every row as a duplicate: 0 inserted, as
  many duplicates as the batch has rows. It does return a result whenever the backend
  reports no error during the call.
\<close>

theorem second_save_inserts_nothing:
  assumes valid: "\<forall>v \<in> set batch. date_parse e (v_postDate v) \<noteq> None"
    and first: "saveVideos e w batch uid = (Inr res1, w1)"
    and unchanged: "videos_table w1' = videos_table w1"
  shows "videos_table (snd (saveVideos e w1' batch uid)) = videos_table w1 \<and>
         (\<forall>res2. fst (saveVideos e w1' batch uid) = Inr res2 \<longrightarrow>
            sv_inserted res2 = 0 \<and> sv_duplicates res2 = length batch) \<and>
         ((\<forall>k \<ge> ticks w1'. backend_error e k = None) \<longrightarrow>
            (\<exists>res2. fst (saveVideos e w1' batch uid) = Inr res2))"
proof -
  from first obtain D N wa rows wb where
    chk: "checkForDuplicates e w batch uid [] [] = (Inr (D, N), wa)" and
    nr: "new_rows e wa N uid = (rows, wb)" and
    table: "videos_table w1 = videos_table w @ rows" and
    len: "length rows = length N"
    by (rule saveVideos_success)
  have N: "N = filter (\<lambda>v. \<not> (\<exists>r \<in> set (videos_table w). stored_match e uid v r)) batch"
    using checkForDuplicates_partition [OF valid chk] by simp
  have stored: "\<exists>r \<in> set (videos_table w1). stored_match e uid v r" if v: "v \<in> set batch" for v
  proof (cases "\<exists>r \<in> set (videos_table w). stored_match e uid v r")
    case True
    then show ?thesis using table by auto
  next
    case False
    with v N have "v \<in> set N" by simp
    then obtain k where k: "k < length N" "N ! k = v" by (auto simp: in_set_conv_nth)
    from valid v obtain d where d: "date_parse e (v_postDate v) = Some d" by auto
    from new_rows_fields [OF nr k(1)] k(2) d
    have "stored_match e uid v (rows ! k)" by (simp add: stored_match_def)
    moreover have "rows ! k \<in> set rows" using k(1) len by simp
    ultimately show ?thesis using table by auto
  qed
  have returned: "sv_inserted res2 = 0 \<and> sv_duplicates res2 = length batch \<and>
                  videos_table w2 = videos_table w1"
    if second: "saveVideos e w1' batch uid = (Inr res2, w2)" for res2 w2
  proof -
    from second obtain D2 N2 wc rows2 wd where
      chk2: "checkForDuplicates e w1' batch uid [] [] = (Inr (D2, N2), wc)" and
      table2: "videos_table w2 = videos_table w1' @ rows2" and
      res2: "sv_inserted res2 = length N2" "sv_duplicates res2 = length D2" and
      len2: "length rows2 = length N2"
      by (rule saveVideos_success)
    from checkForDuplicates_partition [OF valid chk2] stored unchanged
    have "D2 = batch" "N2 = []" by simp_all
    with table2 res2 len2 unchanged show ?thesis by simp
  qed
  obtain r2 w2 where second: "saveVideos e w1' batch uid = (r2, w2)" by force
  have "videos_table w2 = videos_table w1"
  proof (cases r2)
    case (Inl err)
    with second unchanged saveVideos_failure show ?thesis by metis
  next
    case (Inr res2)
    with second returned show ?thesis by blast
  qed
  moreover have "\<forall>res2. r2 = Inr res2 \<longrightarrow> sv_inserted res2 = 0 \<and> sv_duplicates res2 = length batch"
    using second returned by blast
  moreover have "(\<forall>k \<ge> ticks w1'. backend_error e k = None) \<longrightarrow> (\<exists>res2. r2 = Inr res2)"
    using saveVideos_succeeds [of w1' e batch uid] second by auto
  ultimately show ?thesis using second by simp
qed

theorem second_save_inserts_nothing_witness:
  "date_parse example_env (v_postDate uploaded_entry) \<noteq> None \<and>
   fst (saveVideos example_env empty_world [uploaded_entry] ''user-1'') =
     Inr \<lparr> sv_inserted = 1, sv_duplicates = 0 \<rparr> \<and>
   fst (saveVideos example_env (snd (saveVideos example_env empty_world [uploaded_entry] ''user-1''))
          [uploaded_entry] ''user-1'') =
     Inr \<lparr> sv_inserted = 0, sv_duplicates = 1 \<rparr> \<and>
   videos_table (snd (saveVideos example_env
                        (snd (saveVideos example_env empty_world [uploaded_entry] ''user-1''))
                        [uploaded_entry] ''user-1'')) =
     videos_table (snd (saveVideos example_env empty_world [uploaded_entry] ''user-1''))"
proof -
  define w1 where "w1 = \<lparr> videos_table =
          [\<lparr> r_id = ''row-1'', r_video_id = [], r_name = Some ''Cool Clip'',
             r_post_date = ''2024-01-05T00:00:00.000Z'', r_creator_username = ''bob'',
             r_gmv = 2469 / 2, r_spark_code = [], r_status = Pending, r_user_id = ''user-1'',
             r_created_at = ''2025-06-01T12:00:00.000Z'' \<rparr>],
        ticks = 4 \<rparr>"
  have valid: "\<forall>v \<in> set [uploaded_entry]. date_parse example_env (v_postDate v) \<noteq> None"
    by (simp add: example_env_def uploaded_entry_def)
  have first: "saveVideos example_env empty_world [uploaded_entry] ''user-1'' =
     (Inr \<lparr> sv_inserted = 1, sv_duplicates = 0 \<rparr>, w1)"
    unfolding w1_def
    by (simp add: store_defs parser_defs example_defs uploaded_entry_def show_nat.simps)
  have quiet: "\<forall>k \<ge> ticks w1. backend_error example_env k = None"
    by (simp add: example_env_def)
  note again = second_save_inserts_nothing [OF valid first refl]
  from again quiet obtain res2 where
    r2: "fst (saveVideos example_env w1 [uploaded_entry] ''user-1'') = Inr res2" by blast
  with again have "sv_inserted res2 = 0 \<and> sv_duplicates res2 = length [uploaded_entry]" by blast
  then have "res2 = \<lparr> sv_inserted = 0, sv_duplicates = 1 \<rparr>" by simp
  with again r2 valid first show ?thesis by simp
qed


section \<open>The upload summary\<close>

lemma example_lines:
  "file_lines example_csv =
     [''Video name,Video post date,Creator username,GMV'', ''Cool Clip,2024-01-05,@bob,1234.50'']"
  by (simp add: file_lines_def example_csv_def trim_def isWhiteSpace_def)

lemma faulty_lines:
  "file_lines faulty_csv =
     [''Video name,Video post date,Creator username,GMV'', ''Broken Clip,2024-01-05,@bob,'',
      ''Cool Clip,2024-01-05,@bob,1234.50'']"
  by (simp add: file_lines_def faulty_csv_def trim_def isWhiteSpace_def)

lemma standard_header:
  "findColumnIndices ''Video name,Video post date,Creator username,GMV'' = Inr standard_columns"
  by (simp add: resolver_defs string_defs standard_columns_def)

text \<open>
  Claim C1: for every upload whose header resolves, \<open>total\<close> is the number of
  non-blank data lines, \<open>errors\<close> the number of data lines whose parse failed,
  \<open>newEntries\<close> the number of rows inserted into the store and \<open>duplicates\<close> the
  number of rows the duplicate check found in it. The handler does not keep the last two.
  Uploading the same one-row file twice: the second upload parses one row,
  \<open>saveVideos\<close> classifies it as a duplicate and inserts nothing (the table is
  unchanged, and the result it returns is 0 inserted and 1 duplicate), and the summary
  nevertheless reports 1 new entry and 0 duplicates, because the handler drops what
  \<open>saveVideos\<close> returns.
\<close>

theorem repeated_upload_summary:
  "(let (s1, w1) = handleFileSelect example_env ''user-1'' empty_world example_csv;
        (s2, w2) = handleFileSelect example_env ''user-1'' w1 example_csv
    in s1 = \<lparr> newEntries = 1, duplicates = 0, errors = 0, total = 1, errorMessages = [] \<rparr> \<and>
       s2 = \<lparr> newEntries = 1, duplicates = 0, errors = 0, total = 1, errorMessages = [] \<rparr> \<and>
       length (videos_table w1) = 1 \<and>
       videos_table w2 = videos_table w1 \<and>
       process_rows example_env w1 standard_columns (drop 1 (file_lines example_csv)) 1 [] [] =
         (([uploaded_entry], []), tick w1) \<and>
       fst (saveVideos example_env (tick w1) [uploaded_entry] ''user-1'') =
         Inr \<lparr> sv_inserted = 0, sv_duplicates = 1 \<rparr>)"
proof -
  define row where "row = \<lparr> r_id = ''row-2'', r_video_id = [], r_name = Some ''Cool Clip'',
             r_post_date = ''2024-01-05T00:00:00.000Z'', r_creator_username = ''bob'',
             r_gmv = 2469 / 2, r_spark_code = [], r_status = Pending, r_user_id = ''user-1'',
             r_created_at = ''2025-06-01T12:00:00.000Z'' \<rparr>"
  have first: "handleFileSelect example_env ''user-1'' empty_world example_csv =
      (\<lparr> newEntries = 1, duplicates = 0, errors = 0, total = 1, errorMessages = [] \<rparr>,
       \<lparr> videos_table = [row], ticks = 6 \<rparr>)"
    unfolding row_def
    by (simp add: handleFileSelect_def example_lines standard_header store_defs parser_defs
                  string_defs example_defs show_nat.simps)
  have save2: "saveVideos example_env \<lparr> videos_table = [row], ticks = 7 \<rparr> [uploaded_entry] ''user-1'' =
      (Inr \<lparr> sv_inserted = 0, sv_duplicates = 1 \<rparr>, \<lparr> videos_table = [row], ticks = 8 \<rparr>)"
    unfolding row_def
    by (simp add: store_defs parser_defs example_defs uploaded_entry_def)
  have second: "handleFileSelect example_env ''user-1'' \<lparr> videos_table = [row], ticks = 6 \<rparr> example_csv =
      (\<lparr> newEntries = 1, duplicates = 0, errors = 0, total = 1, errorMessages = [] \<rparr>,
       \<lparr> videos_table = [row], ticks = 9 \<rparr>)"
    unfolding row_def
    by (simp add: handleFileSelect_def example_lines standard_header store_defs parser_defs
                  string_defs example_defs show_nat.simps)
  have rows2: "process_rows example_env \<lparr> videos_table = [row], ticks = 6 \<rparr> standard_columns
                 (drop 1 (file_lines example_csv)) 1 [] [] =
               (([uploaded_entry], []), \<lparr> videos_table = [row], ticks = 7 \<rparr>)"
    by (simp add: example_lines string_defs parser_defs example_defs uploaded_entry_def)
  show ?thesis
    using rows2 save2 by (simp add: first second tick_def)
qed


section \<open>Row failures in an upload\<close>

lemma parseCSVLine_error_indep:
  "(fst (parseCSVLine e w line n cm) = Inl err) = (fst (parseCSVLine e' w' line n cm) = Inl err)"
  by (auto simp: parseCSVLine_def Let_def split: option.splits prod.splits)

lemma parseCSVLine_world:
  "parseCSVLine e w line n cm = (res, w') \<Longrightarrow>
   videos_table w' = videos_table w \<and> ticks w \<le> ticks w'"
  by (auto simp: parseCSVLine_def Let_def parseDate_cases split: if_splits option.splits)

lemma parseCSVLine_error_text:
  "fst (parseCSVLine e w line n cm) = Inl err \<Longrightarrow>
   prefix (''Line '' @ show_nat n @ '': '') (caught_text err)"
  by (auto simp: parseCSVLine_def Let_def caught_text_def split: if_splits option.splits prod.splits)

lemma line_message_indep: "line_message e w cm nl = line_message e' w' cm nl"
proof (cases "fst (parseCSVLine e w (snd nl) (fst nl + 1) cm)")
  case (Inl err)
  moreover from Inl have "fst (parseCSVLine e' w' (snd nl) (fst nl + 1) cm) = Inl err"
    using parseCSVLine_error_indep by blast
  ultimately show ?thesis by (simp add: line_message_def)
next
  case (Inr row)
  have "\<exists>row'. fst (parseCSVLine e' w' (snd nl) (fst nl + 1) cm) = Inr row'"
  proof (cases "fst (parseCSVLine e' w' (snd nl) (fst nl + 1) cm)")
    case (Inl err)
    then have "fst (parseCSVLine e w (snd nl) (fst nl + 1) cm) = Inl err"
      using parseCSVLine_error_indep by blast
    with Inr show ?thesis by simp
  next
    case (Inr row')
    then show ?thesis by blast
  qed
  with Inr show ?thesis by (auto simp: line_message_def)
qed

lemma process_rows_collects:
  "process_rows e w cm ls i vs ms = ((vs', ms'), w') \<Longrightarrow>
   ms' = ms @ List.map_filter (line_message e w0 cm) (enumerate i ls) \<and>
   length vs' + length ms' = length vs + length ms + length ls \<and>
   videos_table w' = videos_table w \<and> ticks w \<le> ticks w'"
proof (induction ls arbitrary: w i vs ms)
  case Nil
  then show ?case by (simp add: List.map_filter_simps)
next
  case (Cons line ls)
  obtain r w1 where p: "parseCSVLine e w line (i + 1) cm = (r, w1)" by force
  have w1: "videos_table w1 = videos_table w" "ticks w \<le> ticks w1"
    using parseCSVLine_world [OF p] by simp_all
  have msg: "line_message e w0 cm (i, line) = line_message e w cm (i, line)"
    by (rule line_message_indep)
  show ?case
  proof (cases r)
    case (Inl err)
    with Cons.prems p
    have "process_rows e w1 cm ls (i + 1) vs (ms @ [caught_text err]) = ((vs', ms'), w')" by simp
    from Cons.IH [OF this]
    have ih: "ms' = (ms @ [caught_text err]) @ List.map_filter (line_message e w0 cm) (enumerate (i + 1) ls)"
         "length vs' + length ms' = length vs + length (ms @ [caught_text err]) + length ls"
         "videos_table w' = videos_table w1" "ticks w1 \<le> ticks w'"
      by auto
    have "line_message e w0 cm (i, line) = Some (caught_text err)"
      using msg p Inl by (simp add: line_message_def)
    then have "List.map_filter (line_message e w0 cm) (enumerate i (line # ls)) =
               caught_text err # List.map_filter (line_message e w0 cm) (enumerate (i + 1) ls)"
      by (simp add: List.map_filter_simps)
    with ih w1 show ?thesis by simp
  next
    case (Inr row)
    with Cons.prems p obtain entry where
      "process_rows e (tick w1) cm ls (i + 1) (vs @ [entry]) ms = ((vs', ms'), w')"
      by (auto simp: now_def)
    from Cons.IH [OF this]
    have ih: "ms' = ms @ List.map_filter (line_message e w0 cm) (enumerate (i + 1) ls)"
         "length vs' + length ms' = length (vs @ [entry]) + length ms + length ls"
         "videos_table w' = videos_table (tick w1)" "ticks (tick w1) \<le> ticks w'"
      by auto
    have "line_message e w0 cm (i, line) = None"
      using msg p Inr by (simp add: line_message_def)
    then have "List.map_filter (line_message e w0 cm) (enumerate i (line # ls)) =
               List.map_filter (line_message e w0 cm) (enumerate (i + 1) ls)"
      by (simp add: List.map_filter_simps)
    with ih w1 show ?thesis by simp
  qed
qed

text \<open>
  Claim C8, as stated, fails when the store call that follows the loop fails. In the
  file below the header resolves, line 2 has an empty gmv and line 3 parses; the loop
  collects the message of line 2, but the backend rejects the duplicate query, the outer
  \<open>catch\<close> replaces the summary, and the message of line 2 is not in it, whether the
  error the backend reports is an \<open>Error\<close> instance with a message or not.
\<close>

theorem store_failure_replaces_line_messages:
  "findColumnIndices (file_lines faulty_csv ! 0) = Inr standard_columns \<and>
   snd (fst (process_rows failing_env empty_world standard_columns (drop 1 (file_lines faulty_csv))
               1 [] [])) = [''Line 2: GMV cannot be empty''] \<and>
   fst (handleFileSelect failing_env ''user-1'' empty_world faulty_csv) =
     \<lparr> newEntries = 0, duplicates = 0, errors = 1, total = 0, errorMessages = [''network down''] \<rparr> \<and>
   fst (handleFileSelect rejecting_env ''user-1'' empty_world faulty_csv) =
     \<lparr> newEntries = 0, duplicates = 0, errors = 1, total = 0,
       errorMessages = [''Failed to process CSV file''] \<rparr>"
  by (simp add: handleFileSelect_def faulty_lines standard_header store_defs parser_defs
                string_defs example_defs show_nat.simps)

text \<open>
  Claim C8, amended: for every uploaded file with a header that resolves and at least
  one data line, a parse failure on a data line does not abort processing: the loop
  parses every data line (the rows that parsed and the messages collected are together as
  many as the data lines), and each failure is converted to a message that starts with
  \<open>Line n:\<close>, \<open>n\<close> being the 1-based number of the line among the non-blank lines of
  the file, the messages being collected in the order of the lines. Provided no backend
  call of the upload reports an error, the summary carries exactly these messages.
\<close>

theorem line_failures_are_collected:
  assumes "2 \<le> length (file_lines text)"
    and "findColumnIndices (file_lines text ! 0) = Inr cm"
  shows "snd (fst (process_rows e w cm (drop 1 (file_lines text)) 1 [] [])) =
           List.map_filter (line_message e w cm) (enumerate 1 (drop 1 (file_lines text))) \<and>
         length (fst (fst (process_rows e w cm (drop 1 (file_lines text)) 1 [] []))) +
           length (snd (fst (process_rows e w cm (drop 1 (file_lines text)) 1 [] []))) =
           length (drop 1 (file_lines text)) \<and>
         (\<forall>k line err. fst (parseCSVLine e w line k cm) = Inl err \<longrightarrow>
            prefix (''Line '' @ show_nat k @ '': '') (caught_text err)) \<and>
         ((\<forall>k \<ge> ticks w. backend_error e k = None) \<longrightarrow>
            errorMessages (fst (handleFileSelect e uid w text)) =
              List.map_filter (line_message e w cm) (enumerate 1 (drop 1 (file_lines text))) \<and>
            errors (fst (handleFileSelect e uid w text)) =
              length (errorMessages (fst (handleFileSelect e uid w text))) \<and>
            newEntries (fst (handleFileSelect e uid w text)) +
              errors (fst (handleFileSelect e uid w text)) = length (drop 1 (file_lines text)))"
proof -
  obtain vs ms w1 where
    rows: "process_rows e w cm (drop 1 (file_lines text)) 1 [] [] = ((vs, ms), w1)"
    by (metis surj_pair)
  note c = process_rows_collects [OF rows, of w]
  have loop: "ms = List.map_filter (line_message e w cm) (enumerate 1 (drop 1 (file_lines text)))"
             "length vs + length ms = length (drop 1 (file_lines text))"
    using c by auto
  have texts: "\<forall>k line err. fst (parseCSVLine e w line k cm) = Inl err \<longrightarrow>
                 prefix (''Line '' @ show_nat k @ '': '') (caught_text err)"
    using parseCSVLine_error_text by blast
  have summary: "fst (handleFileSelect e uid w text) =
      \<lparr> newEntries = length vs, duplicates = 0, errors = length ms,
        total = length (file_lines text) - 1, errorMessages = ms \<rparr>"
    if quiet: "\<forall>k \<ge> ticks w. backend_error e k = None"
  proof -
    from c have "ticks w \<le> ticks w1" by simp
    with quiet have "\<forall>k \<ge> ticks w1. backend_error e k = None" by simp
    from saveVideos_succeeds [OF this] obtain res w2 where
      "saveVideos e w1 vs uid = (Inr res, w2)" by blast
    with assms rows show ?thesis by (simp add: handleFileSelect_def Let_def)
  qed
  have "(\<forall>k \<ge> ticks w. backend_error e k = None) \<longrightarrow>
            errorMessages (fst (handleFileSelect e uid w text)) =
              List.map_filter (line_message e w cm) (enumerate 1 (drop 1 (file_lines text))) \<and>
            errors (fst (handleFileSelect e uid w text)) =
              length (errorMessages (fst (handleFileSelect e uid w text))) \<and>
            newEntries (fst (handleFileSelect e uid w text)) +
              errors (fst (handleFileSelect e uid w text)) = length (drop 1 (file_lines text))"
    using summary loop by simp
  moreover have "snd (fst (process_rows e w cm (drop 1 (file_lines text)) 1 [] [])) =
           List.map_filter (line_message e w cm) (enumerate 1 (drop 1 (file_lines text)))"
    unfolding rows using loop(1) by simp
  moreover have "length (fst (fst (process_rows e w cm (drop 1 (file_lines text)) 1 [] []))) +
           length (snd (fst (process_rows e w cm (drop 1 (file_lines text)) 1 [] []))) =
           length (drop 1 (file_lines text))"
    unfolding rows using loop(2) by simp
  ultimately show ?thesis using texts by blast
qed

theorem line_failures_are_collected_witness:
  "2 \<le> length (file_lines faulty_csv) \<and>
   findColumnIndices (file_lines faulty_csv ! 0) = Inr standard_columns \<and>
   errorMessages (fst (handleFileSelect example_env ''user-1'' empty_world faulty_csv)) =
     [''Line 2: GMV cannot be empty''] \<and>
   newEntries (fst (handleFileSelect example_env ''user-1'' empty_world faulty_csv)) = 1"
proof -
  have two: "2 \<le> length (file_lines faulty_csv)" by (simp add: faulty_lines)
  have header: "findColumnIndices (file_lines faulty_csv ! 0) = Inr standard_columns"
    by (simp add: faulty_lines standard_header)
  have quiet: "\<forall>k \<ge> ticks empty_world. backend_error example_env k = None"
    by (simp add: example_env_def)
  have messages: "List.map_filter (line_message example_env empty_world standard_columns)
        (enumerate 1 (drop 1 (file_lines faulty_csv))) = [''Line 2: GMV cannot be empty'']"
    by (simp add: faulty_lines List.map_filter_simps line_message_def enumerate_eq_zip upt_rec
                  parser_defs string_defs example_defs caught_text_def show_nat.simps)
  note collected = line_failures_are_collected
                     [OF two header, of example_env empty_world "''user-1''"]
  from collected quiet have
    m: "errorMessages (fst (handleFileSelect example_env ''user-1'' empty_world faulty_csv)) =
          [''Line 2: GMV cannot be empty'']"
    unfolding messages by blast
  from collected quiet have
    "errors (fst (handleFileSelect example_env ''user-1'' empty_world faulty_csv)) =
       length (errorMessages (fst (handleFileSelect example_env ''user-1'' empty_world faulty_csv)))"
    "newEntries (fst (handleFileSelect example_env ''user-1'' empty_world faulty_csv)) +
       errors (fst (handleFileSelect example_env ''user-1'' empty_world faulty_csv)) =
     length (drop 1 (file_lines faulty_csv))"
    by blast+
  then have "newEntries (fst (handleFileSelect example_env ''user-1'' empty_world faulty_csv)) = 1"
    unfolding m by (simp add: faulty_lines)
  with m two header show ?thesis by blast
qed


section \<open>Editing a record\<close>

lemma handleSaveVideo_ok:
  "backend_error e (ticks w) = None \<Longrightarrow>
   handleSaveVideo e uid (a, w) rowId u =
     (a\<lparr> app_error := None,
         videos := map (\<lambda>video. if v_id video = rowId then merge_updates u video else video)
                       (videos a) \<rparr>,
      tick (w\<lparr> videos_table := map (\<lambda>r. if r_id r = rowId \<and> r_user_id r = uid
                                         then apply_payload (payload_of u) r else r)
                                    (videos_table w) \<rparr>))"
  by (simp add: handleSaveVideo_def update_videos_def)

text \<open>
  Claim C6: for every existing record and every prior status, saving an edit through
  the combined update path with a spark code that is non-empty after trimming produces
  an update whose status is \<open>authorized\<close>; when the backend accepts it, every
  stored row and every displayed entry with the edited identifier has status
  \<open>authorized\<close>.
\<close>

theorem spark_code_sets_authorized:
  assumes "trim (ed_sparkCode ed) \<noteq> []"
  shows "u_status (handleSave_updates ed) = Some Authorized \<and>
         p_status (payload_of (handleSave_updates ed)) = Some Authorized \<and>
         (backend_error e (ticks w) = None \<longrightarrow>
            length (videos (fst (fst (handleSave e uid (a, w) (Some ed) rowId)))) = length (videos a) \<and>
            length (videos_table (snd (fst (handleSave e uid (a, w) (Some ed) rowId)))) =
              length (videos_table w) \<and>
            (\<forall>k < length (videos a). v_id (videos a ! k) = rowId \<longrightarrow>
               v_status (videos (fst (fst (handleSave e uid (a, w) (Some ed) rowId))) ! k) = Authorized) \<and>
            (\<forall>k < length (videos_table w).
               r_id (videos_table w ! k) = rowId \<and> r_user_id (videos_table w ! k) = uid \<longrightarrow>
               r_status (videos_table (snd (fst (handleSave e uid (a, w) (Some ed) rowId))) ! k) =
                 Authorized))"
  using assms
  by (auto simp: handleSave_def handleSaveVideo_ok handleSave_updates_def payload_of_def
                 merge_updates_def apply_payload_def)

theorem spark_code_sets_authorized_witness:
  "trim '' SPARK-9 '' \<noteq> [] \<and>
   handleSave example_env ''user-1''
     (\<lparr> videos = [edited_entry], app_error = None \<rparr>, \<lparr> videos_table = [edited_row], ticks = 0 \<rparr>)
     (Some \<lparr> ed_id = ''row-2'', ed_video_id = [], ed_sparkCode = '' SPARK-9 '' \<rparr>) ''row-2'' =
   ((\<lparr> videos = [edited_entry\<lparr> v_sparkCode := Some '' SPARK-9 '', v_status := Authorized \<rparr>],
       app_error = None \<rparr>,
     \<lparr> videos_table = [edited_row\<lparr> r_spark_code := '' SPARK-9 '', r_status := Authorized \<rparr>],
       ticks = 1 \<rparr>), None)"
proof -
  have filled: "trim '' SPARK-9 '' \<noteq> []"
    by (simp add: trim_def isWhiteSpace_def)
  have quiet: "backend_error example_env (ticks \<lparr> videos_table = [edited_row], ticks = 0 \<rparr>) = None"
    by (simp add: example_env_def)
  have run: "handleSave example_env ''user-1''
     (\<lparr> videos = [edited_entry], app_error = None \<rparr>, \<lparr> videos_table = [edited_row], ticks = 0 \<rparr>)
     (Some \<lparr> ed_id = ''row-2'', ed_video_id = [], ed_sparkCode = '' SPARK-9 '' \<rparr>) ''row-2'' =
   ((\<lparr> videos = [edited_entry\<lparr> v_sparkCode := Some '' SPARK-9 '', v_status := Authorized \<rparr>],
       app_error = None \<rparr>,
     \<lparr> videos_table = [edited_row\<lparr> r_spark_code := '' SPARK-9 '', r_status := Authorized \<rparr>],
       ticks = 1 \<rparr>), None)"
    by (simp add: handleSave_def handleSaveVideo_def update_videos_def handleSave_updates_def
                  payload_of_def merge_updates_def apply_payload_def truthy_def trim_def
                  isWhiteSpace_def example_env_def edited_entry_def edited_row_def
                  uploaded_entry_def tick_def)
  have filled': "trim (ed_sparkCode \<lparr> ed_id = ''row-2'', ed_video_id = [], ed_sparkCode = '' SPARK-9 '' \<rparr>) \<noteq> []"
    using filled by simp
  from spark_code_sets_authorized
         [OF filled', where e = example_env and uid = "''user-1''" and rowId = "''row-2''"
            and w = "\<lparr> videos_table = [edited_row], ticks = 0 \<rparr>"
            and a = "\<lparr> videos = [edited_entry], app_error = None \<rparr>"]
  show ?thesis using filled run by simp
qed

lemma handleSaveVideo_rejected:
  "backend_error e (ticks w) = Some m \<Longrightarrow>
   videos (fst (handleSaveVideo e uid (a, w) rowId u)) = videos a \<and>
   videos_table (snd (handleSaveVideo e uid (a, w) rowId u)) = videos_table w"
  by (simp add: handleSaveVideo_def update_videos_def)

lemma truthy_empty: "x = None \<or> x = Some [] \<Longrightarrow> truthy x = None"
  by (auto simp: truthy_def)

lemma truthy_Some: "truthy x = Some s \<Longrightarrow> s \<noteq> []"
  by (auto simp: truthy_def split: option.splits if_splits)

lemma apply_payload_frame:
  "r_id (apply_payload (payload_of u) r) = r_id r \<and>
   r_name (apply_payload (payload_of u) r) = r_name r \<and>
   r_post_date (apply_payload (payload_of u) r) = r_post_date r \<and>
   r_creator_username (apply_payload (payload_of u) r) = r_creator_username r \<and>
   r_gmv (apply_payload (payload_of u) r) = r_gmv r \<and>
   r_user_id (apply_payload (payload_of u) r) = r_user_id r \<and>
   r_created_at (apply_payload (payload_of u) r) = r_created_at r \<and>
   (u_video_id u = None \<or> u_video_id u = Some [] \<longrightarrow>
      r_video_id (apply_payload (payload_of u) r) = r_video_id r) \<and>
   (u_sparkCode u = None \<or> u_sparkCode u = Some [] \<longrightarrow>
      r_spark_code (apply_payload (payload_of u) r) = r_spark_code r) \<and>
   (r_video_id r \<noteq> [] \<longrightarrow> r_video_id (apply_payload (payload_of u) r) \<noteq> []) \<and>
   (r_spark_code r \<noteq> [] \<longrightarrow> r_spark_code (apply_payload (payload_of u) r) \<noteq> [])"
  by (auto simp: apply_payload_def payload_of_def truthy_empty
           split: option.splits dest: truthy_Some)

lemma merge_updates_frame:
  "v_id (merge_updates u v) = v_id v \<and>
   v_name (merge_updates u v) = v_name v \<and>
   v_postDate (merge_updates u v) = v_postDate v \<and>
   v_creatorUsername (merge_updates u v) = v_creatorUsername v \<and>
   v_gmv (merge_updates u v) = v_gmv v \<and>
   v_hasSparkCode (merge_updates u v) = v_hasSparkCode v \<and>
   v_dateAdded (merge_updates u v) = v_dateAdded v \<and>
   v_tags (merge_updates u v) = v_tags v \<and>
   (u_video_id u = None \<or> u_video_id u = Some [] \<longrightarrow>
      v_video_id (merge_updates u v) = v_video_id v) \<and>
   (u_sparkCode u = None \<or> u_sparkCode u = Some [] \<longrightarrow>
      v_sparkCode (merge_updates u v) = v_sparkCode v) \<and>
   (v_video_id v \<noteq> [] \<longrightarrow> v_video_id (merge_updates u v) \<noteq> []) \<and>
   (v_sparkCode v \<noteq> None \<and> v_sparkCode v \<noteq> Some [] \<longrightarrow>
      v_sparkCode (merge_updates u v) \<noteq> None \<and> v_sparkCode (merge_updates u v) \<noteq> Some [])"
  by (auto simp: merge_updates_def truthy_empty split: option.splits dest: truthy_Some)

text \<open>
  Claim C10: through the combined edit path, an update whose videoId or sparkCode is
  the empty string (or absent) leaves the corresponding field unchanged, in the table
  and in the displayed list; a video id or spark code that was set is never emptied;
  and no field other than videoId, sparkCode and status changes.
\<close>

theorem combined_edit_frame:
  "length (videos_table (snd (handleSaveVideo e uid (a, w) rowId u))) = length (videos_table w) \<and>
   length (videos (fst (handleSaveVideo e uid (a, w) rowId u))) = length (videos a) \<and>
   (\<forall>k < length (videos_table w).
      stored_frame u (videos_table w ! k)
        (videos_table (snd (handleSaveVideo e uid (a, w) rowId u)) ! k)) \<and>
   (\<forall>k < length (videos a).
      shown_frame u (videos a ! k) (videos (fst (handleSaveVideo e uid (a, w) rowId u)) ! k))"
proof (cases "backend_error e (ticks w)")
  case None
  have "stored_frame u r (apply_payload (payload_of u) r)" for r
    using apply_payload_frame [of u r] by (simp add: stored_frame_def)
  moreover have "stored_frame u r r" for r
    by (simp add: stored_frame_def)
  moreover have "shown_frame u v (merge_updates u v)" for v
    using merge_updates_frame [of u v] by (simp add: shown_frame_def)
  moreover have "shown_frame u v v" for v
    by (simp add: shown_frame_def)
  ultimately show ?thesis
    by (simp add: handleSaveVideo_ok [OF None])
next
  case (Some m)
  have "stored_frame u r r" for r
    by (simp add: stored_frame_def)
  moreover have "shown_frame u v v" for v
    by (simp add: shown_frame_def)
  ultimately show ?thesis
    using handleSaveVideo_rejected [OF Some, of uid a rowId u] by simp
qed

theorem combined_edit_frame_witness:
  "r_spark_code (videos_table (snd (handleSaveVideo example_env ''user-1''
      (\<lparr> videos = [edited_entry\<lparr> v_video_id := ''V1'', v_sparkCode := Some ''SPARK-1'' \<rparr>],
         app_error = None \<rparr>,
       \<lparr> videos_table = [edited_row\<lparr> r_video_id := ''V1'', r_spark_code := ''SPARK-1'' \<rparr>],
         ticks = 0 \<rparr>)
      ''row-2'' \<lparr> u_video_id = Some [], u_sparkCode = Some [], u_status = None \<rparr>)) ! 0) = ''SPARK-1'' \<and>
   r_video_id (videos_table (snd (handleSaveVideo example_env ''user-1''
      (\<lparr> videos = [edited_entry\<lparr> v_video_id := ''V1'', v_sparkCode := Some ''SPARK-1'' \<rparr>],
         app_error = None \<rparr>,
       \<lparr> videos_table = [edited_row\<lparr> r_video_id := ''V1'', r_spark_code := ''SPARK-1'' \<rparr>],
         ticks = 0 \<rparr>)
      ''row-2'' \<lparr> u_video_id = Some [], u_sparkCode = Some [], u_status = None \<rparr>)) ! 0) = ''V1''"
  using combined_edit_frame
          [of example_env "''user-1''"
              "\<lparr> videos = [edited_entry\<lparr> v_video_id := ''V1'', v_sparkCode := Some ''SPARK-1'' \<rparr>],
                 app_error = None \<rparr>"
              "\<lparr> videos_table = [edited_row\<lparr> r_video_id := ''V1'', r_spark_code := ''SPARK-1'' \<rparr>],
                 ticks = 0 \<rparr>"
              "''row-2''" "\<lparr> u_video_id = Some [], u_sparkCode = Some [], u_status = None \<rparr>"]
  by (simp add: stored_frame_def)

end
